theory Spec2Isabelle
  imports Main "HOL-Library.AList"
begin


section \<open>Configuration records (config.py)\<close>

text \<open>
  A \<open>pathlib.Path\<close> is kept as the list of its components, from the root; the working
  directory, from which a relative path is read, is taken to be the root.
  \<open>Config.defaults\<close> is read by the loader and by the command line only, never by the
  executor, and is left out.
\<close>

type_synonym path = "string list"

record NodeConfig =
  name :: string
  host :: string
  port :: int
  commands :: "string list"
  user :: string
  stop_on_error :: bool
  no_logs :: bool
  work_dir :: "string option"
  ssh_key :: path
  timeout :: int

record Config =
  nodes :: "NodeConfig list"
  log_dir :: path
  source_path :: "path option"

section \<open>Executor data (executor.py)\<close>

datatype NodeStatus = PENDING | CONNECTING | RUNNING | SUCCESS | FAILED

record NodeState =
  config :: NodeConfig
  status :: NodeStatus
  current_command :: string
  current_command_index :: int
  output_lines :: "string list"
  error_message :: string
  log_file :: "path option"

text \<open>
  The two callbacks of the executor. A callback receives the node's name and the line or
  the status; being called from inside the executor it can also read the executor's
  \<open>states\<close> and the log files. What it can read about the node it is called for is
  recorded with the call: the node's \<open>NodeState\<close> and the text of the node's log file.
\<close>

datatype event = OutputEvent string string | StatusEvent string NodeStatus

record view =
  seen_state :: "NodeState option"
  seen_log :: "string option"

text \<open>
  \<open>states\<close> is a Python dict: an association list in insertion order, where
  \<open>AList.update\<close> replaces the value of a key in place and adds a new key at the end.
  \<open>on_output\<close> and \<open>on_status\<close> say whether a callback was given. The last four
  fields are the world the executor acts on: the directories and files of the file system,
  the calls received by the callbacks, and the commands handed to \<open>create_process\<close>.
\<close>

record Executor =
  x_config :: Config
  on_output :: bool
  on_status :: bool
  enable_logging :: bool
  states :: "(string \<times> NodeState) list"
  x_log_dir :: "path option"
  dirs :: "path set"
  files :: "(path \<times> string) list"
  sink :: "(event \<times> view) list"
  launched :: "(string \<times> string) list"

definition Executor_init :: "Config \<Rightarrow> bool \<Rightarrow> bool \<Rightarrow> bool \<Rightarrow> path set \<Rightarrow> (path \<times> string) list \<Rightarrow> Executor" where
  "Executor_init cfg out st logging ds fs =
     \<lparr>x_config = cfg, on_output = out, on_status = st, enable_logging = logging,
      states = [], x_log_dir = None, dirs = ds, files = fs, sink = [], launched = []\<rparr>"

section \<open>Strings\<close>

text \<open>\<open>str\<close> of a Python integer: decimal digits, with a minus sign when negative.\<close>

definition digit_char :: "nat \<Rightarrow> char" where
  "digit_char d = (''0123456789'') ! d"

function str_nat :: "nat \<Rightarrow> string" where
  "str_nat n = (if n < 10 then [digit_char n] else str_nat (n div 10) @ [digit_char (n mod 10)])"
  by pat_completeness auto
termination
  by (relation "measure id") auto

definition str_int :: "int \<Rightarrow> string" where
  "str_int i = (if i < 0 then CHR ''-'' # str_nat (nat (- i)) else str_nat (nat i))"

text \<open>\<open>line.rstrip("\n\r")\<close>: the trailing line feeds and carriage returns are removed.\<close>

definition rstrip_nl :: "string \<Rightarrow> string" where
  "rstrip_nl s = rev (dropWhile (\<lambda>c. c = CHR 0x0A \<or> c = CHR 0x0D) (rev s))"

text \<open>\<open>sep.join(xs)\<close>.\<close>

fun join :: "string \<Rightarrow> string list \<Rightarrow> string" where
  "join sep [] = []"
| "join sep [x] = x"
| "join sep (x # y # ys) = x @ sep @ join sep (y # ys)"

section \<open>Paths and files\<close>

text \<open>
  \<open>p / s\<close> of \<open>pathlib\<close>, for a string \<open>s\<close>: the string is split at its slashes, empty
  pieces and \<open>.\<close> are dropped, and the pieces are added to \<open>p\<close>; a string that
  starts with a slash is an absolute path and replaces \<open>p\<close>.
\<close>

fun split_slash :: "string \<Rightarrow> string \<Rightarrow> string list" where
  "split_slash cur [] = [cur]"
| "split_slash cur (c # cs) =
     (if c = CHR ''/'' then cur # split_slash [] cs else split_slash (cur @ [c]) cs)"

definition path_parts :: "string \<Rightarrow> string list" where
  "path_parts s = filter (\<lambda>c. c \<noteq> [] \<and> c \<noteq> ''.'') (split_slash [] s)"

definition path_join :: "path \<Rightarrow> string \<Rightarrow> path" where
  "path_join p s =
     (case s of [] \<Rightarrow> p | c # cs \<Rightarrow> if c = CHR ''/'' then path_parts s else p @ path_parts s)"

text \<open>
  How the operating system walks a path, given the directories that exist (the root always
  does): every component is looked up in a directory, \<open>..\<close> leads to the parent, and the
  result is the place the path names. The last component need not exist. Symbolic links
  are left out.
\<close>

fun walk :: "path set \<Rightarrow> path \<Rightarrow> path \<Rightarrow> path option" where
  "walk ds cur [] = Some cur"
| "walk ds cur (c # cs) =
     (if cur \<noteq> [] \<and> cur \<notin> ds then None
      else if c = ''..'' then walk ds (butlast cur) cs
      else walk ds (cur @ [c]) cs)"

text \<open>
  \<open>open(f, "a")\<close>: the file that is opened, or \<open>None\<close> when \<open>open\<close> raises an
  \<open>OSError\<close> (a directory on the way is missing, or the path names a directory).
\<close>

definition open_append :: "path set \<Rightarrow> path \<Rightarrow> path option" where
  "open_append ds f =
     (case walk ds [] f of
        None \<Rightarrow> None
      | Some r \<Rightarrow> if r = [] \<or> r \<in> ds then None else Some r)"

text \<open>The text of the file a path names, when there is one.\<close>

definition read_file :: "path set \<Rightarrow> (path \<times> string) list \<Rightarrow> path \<Rightarrow> string option" where
  "read_file ds fs f = (case walk ds [] f of None \<Rightarrow> None | Some r \<Rightarrow> map_of fs r)"

text \<open>
  The text of the \<open>OSError\<close> of a failed \<open>open\<close>, without the path it names. It stands
  for the text of either failure; the exception leaves the driver and nothing reads it.
\<close>

definition log_error :: string where
  "log_error = ''[Errno 2] No such file or directory''"

section \<open>The remote side\<close>

text \<open>
  The exceptions the executor tells apart, each with the text \<open>str(e)\<close>: an instance of
  \<open>asyncssh.Error\<close>, an instance of \<open>OSError\<close> that is not an \<open>asyncssh.Error\<close>, and any
  other exception.
\<close>

datatype exn = SSHError string | OSError string | OtherError string

text \<open>
  What one \<open>create_process\<close> call does: the lines read from the two streams, in the order
  they arrive (\<open>True\<close> marks a line of stderr), each as \<open>readline\<close> returns it, and then
  either the exit status or an exception raised while launching, reading or waiting. An
  exception ends the reading.
\<close>

datatype proc_end = Exit int | Raise exn

datatype proc = Proc "(bool \<times> string) list" proc_end

text \<open>
  What \<open>asyncssh.connect\<close> does for one node: it raises, or it gives a session that answers
  the i-th command of the node, given its text, with a process.
\<close>

datatype connect_result = Refused exn | Session "nat \<Rightarrow> string \<Rightarrow> proc"

text \<open>
  Taken as given: a remote process ends, and its exit status is an integer; the callbacks
  return without raising; the directories and files change only through the executor; the
  file system sets no limit of its own (permissions, lengths of names, space), tells the
  names of files apart as the strings they are, and no path holds a NUL character, so
  that the log directory can be made, a file can be opened for appending exactly when the
  directories on its way exist and no directory is at its place, and a file that was
  opened can be written; no exception is raised on leaving the two \<open>async with\<close>
  blocks; the run is not cancelled.
\<close>

section \<open>Steps of a driver\<close>

text \<open>
  A driver (\<open>_run_node\<close>) is a coroutine: its run is the list of the steps it takes on the
  executor, in order. The steps of the drivers of different nodes are interleaved by the
  event loop.
\<close>

datatype action =
    EmitStatus string NodeStatus
  | EmitOutput string string
  | SetCurrent string string int
  | SetError string string
  | CreateProcess string string

fun owner :: "action \<Rightarrow> string" where
  "owner (EmitStatus n s) = n"
| "owner (EmitOutput n l) = n"
| "owner (SetCurrent n c i) = n"
| "owner (SetError n m) = n"
| "owner (CreateProcess n c) = n"

subsection \<open>\<open>_run_command\<close>\<close>

definition read_stream :: "string \<Rightarrow> bool \<times> string \<Rightarrow> action" where
  "read_stream node_name l =
     EmitOutput node_name ((if fst l then ''STDERR: '' else '''') @ rstrip_nl (snd l))"

text \<open>
  The result is the steps taken and either the exception that leaves the function
  (\<open>Inl\<close>) or the returned boolean (\<open>Inr\<close>).
\<close>

fun run_command :: "string \<Rightarrow> string \<Rightarrow> proc \<Rightarrow> action list \<times> (exn + bool)" where
  "run_command node_name cmd (Proc ls (Exit exit_status)) =
     (if exit_status \<noteq> 0
      then (CreateProcess node_name cmd # map (read_stream node_name) ls
              @ [EmitOutput node_name (''Command exited with status '' @ str_int exit_status)],
            Inr False)
      else (CreateProcess node_name cmd # map (read_stream node_name) ls, Inr True))"
| "run_command node_name cmd (Proc ls (Raise (SSHError e))) =
     (CreateProcess node_name cmd # map (read_stream node_name) ls
        @ [EmitOutput node_name (''Command error: '' @ e)],
      Inr False)"
| "run_command node_name cmd (Proc ls (Raise e)) =
     (CreateProcess node_name cmd # map (read_stream node_name) ls, Inl e)"

subsection \<open>\<open>_run_node\<close>\<close>

text \<open>
  The command handed to \<open>_run_command\<close>: prefixed by a \<open>cd\<close> when \<open>work_dir\<close> is
  true, that is, neither \<open>None\<close> nor the empty string.
\<close>

fun actual_cmd :: "string option \<Rightarrow> string \<Rightarrow> string" where
  "actual_cmd None cmd = cmd"
| "actual_cmd (Some d) cmd = (if d \<noteq> [] then ''cd '' @ d @ '' && '' @ cmd else cmd)"

text \<open>
  How the loop over the commands ends: it runs through, it is left by the \<open>return\<close> of the
  stop-on-error branch, or an exception leaves \<open>_run_command\<close>.
\<close>

datatype loop_end = Completed | Returned | Raised exn

fun run_commands ::
  "NodeConfig \<Rightarrow> (nat \<Rightarrow> string \<Rightarrow> proc) \<Rightarrow> nat \<Rightarrow> string list \<Rightarrow> action list \<times> loop_end" where
  "run_commands node conn i [] = ([], Completed)"
| "run_commands node conn i (cmd # cmds) =
     (let r = run_command (name node) (actual_cmd (work_dir node) cmd)
                (conn i (actual_cmd (work_dir node) cmd));
          steps = [SetCurrent (name node) cmd (int i), EmitOutput (name node) (''$ '' @ cmd)] @ fst r
      in case snd r of
           Inl e \<Rightarrow> (steps, Raised e)
         | Inr success \<Rightarrow>
             if \<not> success \<and> stop_on_error node
             then (steps @ [EmitStatus (name node) FAILED,
                            SetError (name node) (''Command failed: '' @ cmd)], Returned)
             else (steps @ fst (run_commands node conn (Suc i) cmds),
                   snd (run_commands node conn (Suc i) cmds)))"

text \<open>
  The two \<open>except\<close> clauses of \<open>_run_node\<close>; an exception of another class is not caught
  and leaves the driver.
\<close>

fun handle_exn :: "string \<Rightarrow> exn \<Rightarrow> action list \<times> exn option" where
  "handle_exn n (SSHError e) =
     ([EmitStatus n FAILED, SetError n (''SSH error: '' @ e), EmitOutput n (''ERROR: '' @ e)], None)"
| "handle_exn n (OSError e) =
     ([EmitStatus n FAILED, SetError n (''Connection error: '' @ e), EmitOutput n (''ERROR: '' @ e)],
      None)"
| "handle_exn n (OtherError e) = ([], Some (OtherError e))"

definition connecting :: "NodeConfig \<Rightarrow> action list" where
  "connecting node =
     [EmitStatus (name node) CONNECTING,
      EmitOutput (name node)
        (''Connecting to '' @ user node @ ''@'' @ host node @ '':'' @ str_int (port node) @ ''...'')]"

definition connected :: "NodeConfig \<Rightarrow> action list" where
  "connected node =
     [EmitStatus (name node) RUNNING, EmitOutput (name node) ''Connected successfully'']
     @ (case work_dir node of
          None \<Rightarrow> []
        | Some d \<Rightarrow> if d \<noteq> [] then [EmitOutput (name node) (''Working directory: '' @ d)] else [])
     @ [EmitOutput (name node) []]"

definition completed :: "NodeConfig \<Rightarrow> action list" where
  "completed node =
     [EmitOutput (name node) [], EmitOutput (name node) ''All commands completed'',
      EmitStatus (name node) SUCCESS]"

text \<open>
  The steps of the driver of one node, and the exception that leaves it, if any
  (\<open>asyncio.gather\<close> with \<open>return_exceptions=True\<close> takes it and drops it). The first
  argument says whether the log writes of the node succeed: whether \<open>_emit_output\<close>
  raises depends on the node's \<open>log_file\<close> and on the directories, and no step changes
  either, so the first call of \<open>_emit_output\<close> raises or none does. That first call
  stands before the \<open>try\<close>: when it raises, the \<open>OSError\<close> leaves the driver.
\<close>

definition run_node :: "bool \<Rightarrow> NodeConfig \<Rightarrow> connect_result \<Rightarrow> action list \<times> exn option" where
  "run_node writable node r =
     (if \<not> writable then (connecting node, Some (OSError log_error))
      else case r of
        Refused e \<Rightarrow>
          (connecting node @ fst (handle_exn (name node) e), snd (handle_exn (name node) e))
      | Session conn \<Rightarrow>
          (case snd (run_commands node conn 0 (commands node)) of
             Completed \<Rightarrow>
               (connecting node @ connected node
                  @ fst (run_commands node conn 0 (commands node)) @ completed node, None)
           | Returned \<Rightarrow>
               (connecting node @ connected node
                  @ fst (run_commands node conn 0 (commands node)), None)
           | Raised e \<Rightarrow>
               (connecting node @ connected node
                  @ fst (run_commands node conn 0 (commands node))
                  @ fst (handle_exn (name node) e),
                snd (handle_exn (name node) e))))"

section \<open>The executor's methods\<close>

definition snapshot :: "string \<Rightarrow> Executor \<Rightarrow> view" where
  "snapshot n ex =
     \<lparr>seen_state = map_of (states ex) n,
      seen_log = (case map_of (states ex) n of
                    None \<Rightarrow> None
                  | Some st \<Rightarrow> (case log_file st of
                                 None \<Rightarrow> None
                               | Some f \<Rightarrow> read_file (dirs ex) (files ex) f))\<rparr>"

text \<open>
  \<open>open(f, "a").write(s)\<close>: the new files, or the \<open>OSError\<close> of \<open>open\<close>. The file is
  created when it is not there.
\<close>

definition append_file ::
  "path set \<Rightarrow> path \<Rightarrow> string \<Rightarrow> (path \<times> string) list \<Rightarrow> exn + (path \<times> string) list" where
  "append_file ds f s fs =
     (case open_append ds f of
        None \<Rightarrow> Inl (OSError log_error)
      | Some r \<Rightarrow> Inr (AList.update r ((case map_of fs r of None \<Rightarrow> [] | Some old \<Rightarrow> old) @ s) fs))"

definition call_on_output :: "string \<Rightarrow> string \<Rightarrow> Executor \<Rightarrow> Executor" where
  "call_on_output node_name line ex =
     (if on_output ex
      then ex\<lparr>sink := sink ex @ [(OutputEvent node_name line, snapshot node_name ex)]\<rparr>
      else ex)"

text \<open>
  \<open>_emit_output\<close>: the executor after the call and the exception that leaves it, if any.
  When the log write raises, the line is in the history already and the callback is not
  called.
\<close>

definition emit_output :: "string \<Rightarrow> string \<Rightarrow> Executor \<Rightarrow> Executor \<times> exn option" where
  "emit_output node_name line ex =
     (case map_of (states ex) node_name of
        None \<Rightarrow> (call_on_output node_name line ex, None)
      | Some state \<Rightarrow>
          (let ex' = ex\<lparr>states :=
                       AList.update node_name
                         (state\<lparr>output_lines := output_lines state @ [line]\<rparr>) (states ex)\<rparr>
           in case log_file state of
                None \<Rightarrow> (call_on_output node_name line ex', None)
              | Some f \<Rightarrow>
                  (case append_file (dirs ex') f (line @ [CHR 0x0A]) (files ex') of
                     Inl e \<Rightarrow> (ex', Some e)
                   | Inr fs \<Rightarrow> (call_on_output node_name line (ex'\<lparr>files := fs\<rparr>), None))))"

text \<open>Whether the log writes of a node succeed: it has no log file, or the file can be opened.\<close>

definition log_writable :: "Executor \<Rightarrow> string \<Rightarrow> bool" where
  "log_writable ex n =
     (case map_of (states ex) n of
        None \<Rightarrow> True
      | Some state \<Rightarrow> (case log_file state of
                         None \<Rightarrow> True
                       | Some f \<Rightarrow> open_append (dirs ex) f \<noteq> None))"

definition emit_status :: "string \<Rightarrow> NodeStatus \<Rightarrow> Executor \<Rightarrow> Executor" where
  "emit_status node_name s ex =
     (let ex1 =
        (case map_of (states ex) node_name of
           None \<Rightarrow> ex
         | Some state \<Rightarrow> ex\<lparr>states := AList.update node_name (state\<lparr>status := s\<rparr>) (states ex)\<rparr>)
      in if on_status ex1
         then ex1\<lparr>sink := sink ex1 @ [(StatusEvent node_name s, snapshot node_name ex1)]\<rparr>
         else ex1)"

text \<open>
  An assignment to a field of \<open>state\<close>, the object the driver took from
  \<open>self.states[node.name]\<close> when it started.
\<close>

definition assign :: "string \<Rightarrow> (NodeState \<Rightarrow> NodeState) \<Rightarrow> Executor \<Rightarrow> Executor" where
  "assign n f ex = ex\<lparr>states := AList.map_entry n f (states ex)\<rparr>"

fun exec :: "action \<Rightarrow> Executor \<Rightarrow> Executor" where
  "exec (EmitStatus n s) ex = emit_status n s ex"
| "exec (EmitOutput n l) ex = fst (emit_output n l ex)"
| "exec (SetCurrent n c i) ex =
     assign n (\<lambda>state. state\<lparr>current_command := c, current_command_index := i\<rparr>) ex"
| "exec (SetError n m) ex = assign n (\<lambda>state. state\<lparr>error_message := m\<rparr>) ex"
| "exec (CreateProcess n c) ex = ex\<lparr>launched := launched ex @ [(n, c)]\<rparr>"

subsection \<open>\<open>_setup_logging\<close>\<close>

text \<open>
  \<open>mkdir(parents=True, exist_ok=True)\<close>: the directory and its missing ancestors, for a
  path without \<open>..\<close> (with one, the directories made are those the path resolves to,
  which this definition does not follow).
\<close>

definition mkdir_parents :: "path \<Rightarrow> path set \<Rightarrow> path set" where
  "mkdir_parents p ds = ds \<union> set (map (\<lambda>k. take k p) [1..<Suc (length p)])"

text \<open>
  The argument is the text of \<open>datetime.now().strftime(...)\<close>. The source configuration
  exists when the file system has a file at \<open>source_path\<close>.
\<close>

definition setup_logging :: "string \<Rightarrow> Executor \<Rightarrow> Executor" where
  "setup_logging timestamp ex =
     (if \<not> enable_logging ex then ex
      else if list_all no_logs (nodes (x_config ex)) then ex
      else (let d = log_dir (x_config ex) @ [timestamp];
                ex1 = ex\<lparr>x_log_dir := Some d, dirs := mkdir_parents d (dirs ex)\<rparr>
            in case source_path (x_config ex) of
                 None \<Rightarrow> ex1
               | Some src \<Rightarrow>
                   (case map_of (files ex1) src of
                      None \<Rightarrow> ex1
                    | Some text \<Rightarrow>
                        ex1\<lparr>files := AList.update (d @ [''config.yaml'']) text (files ex1)\<rparr>)))"

subsection \<open>\<open>run_all\<close>\<close>

definition init_state :: "NodeConfig \<Rightarrow> Executor \<Rightarrow> Executor" where
  "init_state node ex =
     (let lf = (case x_log_dir ex of
                  None \<Rightarrow> None
                | Some d \<Rightarrow> if \<not> no_logs node then Some (path_join d (name node @ ''.log''))
                            else None)
      in ex\<lparr>states :=
              AList.update (name node)
                \<lparr>config = node, status = PENDING, current_command = [],
                 current_command_index = 0, output_lines = [], error_message = [],
                 log_file = lf\<rparr>
                (states ex)\<rparr>)"

text \<open>
  \<open>asyncio.gather\<close> runs the drivers together. A schedule names, step by step, the driver
  that takes its next step; when the schedule is used up the drivers that are not finished
  run to their ends. Every interleaving of the drivers' steps comes from some schedule.
\<close>

fun interleave :: "nat list \<Rightarrow> 'a list list \<Rightarrow> 'a list" where
  "interleave [] ts = concat ts"
| "interleave (k # ks) ts =
     (if k < length ts
      then (case ts ! k of
              [] \<Rightarrow> interleave ks ts
            | a # as \<Rightarrow> a # interleave ks (ts[k := as]))
      else interleave ks ts)"

text \<open>
  The drivers of a run, for the executor with its states made: one for each node of the
  configuration, with what the remote side does for the i-th node.
\<close>

definition drivers :: "(nat \<Rightarrow> connect_result) \<Rightarrow> Executor \<Rightarrow> (action list \<times> exn option) list" where
  "drivers remote ex =
     map (\<lambda>i. run_node (log_writable ex (name (nodes (x_config ex) ! i)))
                 (nodes (x_config ex) ! i) (remote i))
       [0..<length (nodes (x_config ex))]"

text \<open>
  The executor after \<open>run_all\<close>; the value \<open>run_all\<close> returns is its \<open>states\<close>. The first
  argument is the clock's text, the second what the remote side does for the i-th node of
  the configuration, the third the schedule.
\<close>

definition initialised :: "string \<Rightarrow> Executor \<Rightarrow> Executor" where
  "initialised timestamp ex =
     fold init_state (nodes (x_config ex)) (setup_logging timestamp ex)"

definition steps_of_run :: "string \<Rightarrow> (nat \<Rightarrow> connect_result) \<Rightarrow> nat list \<Rightarrow> Executor \<Rightarrow> action list" where
  "steps_of_run timestamp remote schedule ex =
     interleave schedule (map fst (drivers remote (initialised timestamp ex)))"

definition run_all :: "string \<Rightarrow> (nat \<Rightarrow> connect_result) \<Rightarrow> nat list \<Rightarrow> Executor \<Rightarrow> Executor" where
  "run_all timestamp remote schedule ex =
     fold exec (steps_of_run timestamp remote schedule ex) (initialised timestamp ex)"

section \<open>The headless runner (runner.py)\<close>

definition colors :: "string list" where
  "colors = [CHR 0x1B # ''[36m'', CHR 0x1B # ''[33m'', CHR 0x1B # ''[35m'', CHR 0x1B # ''[32m'',
             CHR 0x1B # ''[34m'', CHR 0x1B # ''[91m'', CHR 0x1B # ''[96m'', CHR 0x1B # ''[93m'']"

definition reset :: string where
  "reset = CHR 0x1B # ''[0m''"

fun node_colors :: "nat \<Rightarrow> NodeConfig list \<Rightarrow> (string \<times> string) list \<Rightarrow> (string \<times> string) list" where
  "node_colors i [] d = d"
| "node_colors i (node # ns) d =
     node_colors (Suc i) ns (AList.update (name node) (colors ! (i mod length colors)) d)"

fun status_value :: "NodeStatus \<Rightarrow> string" where
  "status_value PENDING = ''pending''"
| "status_value CONNECTING = ''connecting''"
| "status_value RUNNING = ''running''"
| "status_value SUCCESS = ''success''"
| "status_value FAILED = ''failed''"

definition color_of :: "(string \<times> string) list \<Rightarrow> string \<Rightarrow> string" where
  "color_of d n = (case map_of d n of None \<Rightarrow> [] | Some c \<Rightarrow> c)"

text \<open>What \<open>on_output\<close> and \<open>on_status\<close> print for a call.\<close>

fun printed :: "(string \<times> string) list \<Rightarrow> event \<Rightarrow> string" where
  "printed d (OutputEvent n line) = color_of d n @ ''['' @ n @ '']'' @ reset @ '' '' @ line"
| "printed d (StatusEvent n s) =
     color_of d n @ ''['' @ n @ '']'' @ reset @ '' Status: '' @ status_value s"

definition failed_nodes :: "(string \<times> NodeState) list \<Rightarrow> string list" where
  "failed_nodes sts = map fst (filter (\<lambda>p. status (snd p) = FAILED) sts)"

record headless_result =
  exit_code :: int
  stdout :: "string list"
  stderr :: "string list"

text \<open>
  \<open>_run_headless\<close>: the exit code and the texts printed to the two streams, one element
  for each \<open>print\<close>. The executor is made with both callbacks.
\<close>

definition headless_executor :: "Config \<Rightarrow> bool \<Rightarrow> path set \<Rightarrow> (path \<times> string) list \<Rightarrow> Executor" where
  "headless_executor cfg logging ds fs = Executor_init cfg True True logging ds fs"

definition run_headless ::
  "string \<Rightarrow> (nat \<Rightarrow> connect_result) \<Rightarrow> nat list \<Rightarrow> path set \<Rightarrow> (path \<times> string) list
     \<Rightarrow> Config \<Rightarrow> bool \<Rightarrow> headless_result" where
  "run_headless timestamp remote schedule ds fs cfg logging =
     (let ex = run_all timestamp remote schedule (headless_executor cfg logging ds fs);
          failed = failed_nodes (states ex)
      in \<lparr>exit_code = (if failed \<noteq> [] then 1 else 0),
          stdout = map (\<lambda>c. printed (node_colors 0 (nodes cfg) []) (fst c)) (sink ex),
          stderr = (if failed \<noteq> [] then [CHR 0x0A # ''Failed nodes: '' @ join '', '' failed]
                    else [])\<rparr>)"

section \<open>Observations\<close>

text \<open>
  What a step list hands to the executor, by kind: the lines given to \<open>_emit_output\<close>, the
  statuses given to \<open>_emit_status\<close>, the texts assigned to \<open>error_message\<close>, and the
  commands given to \<open>create_process\<close>.
\<close>

fun emitted :: "action list \<Rightarrow> string list" where
  "emitted [] = []"
| "emitted (EmitOutput n l # as) = l # emitted as"
| "emitted (a # as) = emitted as"

fun statuses :: "action list \<Rightarrow> NodeStatus list" where
  "statuses [] = []"
| "statuses (EmitStatus n s # as) = s # statuses as"
| "statuses (a # as) = statuses as"

fun errors :: "action list \<Rightarrow> string list" where
  "errors [] = []"
| "errors (SetError n m # as) = m # errors as"
| "errors (a # as) = errors as"

fun created :: "action list \<Rightarrow> string list" where
  "created [] = []"
| "created (CreateProcess n c # as) = c # created as"
| "created (a # as) = created as"

text \<open>The statuses the status callback received for a node, in order.\<close>

fun delivered_statuses :: "string \<Rightarrow> (event \<times> view) list \<Rightarrow> NodeStatus list" where
  "delivered_statuses n [] = []"
| "delivered_statuses n ((StatusEvent m s, v) # cs) =
     (if m = n then s # delivered_statuses n cs else delivered_statuses n cs)"
| "delivered_statuses n ((OutputEvent m l, v) # cs) = delivered_statuses n cs"

text \<open>
  The state machine as the specification gives it: its transitions, and the lists of
  statuses that follow them.
\<close>

fun spec_transition :: "NodeStatus \<Rightarrow> NodeStatus \<Rightarrow> bool" where
  "spec_transition PENDING CONNECTING = True"
| "spec_transition CONNECTING RUNNING = True"
| "spec_transition CONNECTING FAILED = True"
| "spec_transition RUNNING SUCCESS = True"
| "spec_transition RUNNING FAILED = True"
| "spec_transition s t = False"

fun valid_path :: "NodeStatus list \<Rightarrow> bool" where
  "valid_path [] = True"
| "valid_path [s] = True"
| "valid_path (s # t # ss) = (spec_transition s t \<and> valid_path (t # ss))"

text \<open>The state \<open>run_all\<close> makes for a node, given the run's log directory.\<close>

definition fresh_state :: "path option \<Rightarrow> NodeConfig \<Rightarrow> NodeState" where
  "fresh_state d node =
     \<lparr>config = node, status = PENDING, current_command = [], current_command_index = 0,
      output_lines = [], error_message = [],
      log_file = (case d of None \<Rightarrow> None
                  | Some p \<Rightarrow> if \<not> no_logs node then Some (path_join p (name node @ ''.log''))
                              else None)\<rparr>"

text \<open>What a step does to the state of the node named \<open>n\<close>.\<close>

fun step :: "string \<Rightarrow> action \<Rightarrow> NodeState \<Rightarrow> NodeState" where
  "step n (EmitStatus m s) st = (if m = n then st\<lparr>status := s\<rparr> else st)"
| "step n (EmitOutput m l) st = (if m = n then st\<lparr>output_lines := output_lines st @ [l]\<rparr> else st)"
| "step n (SetCurrent m c i) st =
     (if m = n then st\<lparr>current_command := c, current_command_index := i\<rparr> else st)"
| "step n (SetError m e) st = (if m = n then st\<lparr>error_message := e\<rparr> else st)"
| "step n (CreateProcess m c) st = st"

text \<open>The driver of the i-th node in a run: its steps and the exception that leaves it.\<close>

definition driver :: "string \<Rightarrow> (nat \<Rightarrow> connect_result) \<Rightarrow> Executor \<Rightarrow> nat \<Rightarrow> action list \<times> exn option" where
  "driver timestamp remote ex i =
     run_node (log_writable (initialised timestamp ex) (name (nodes (x_config ex) ! i)))
       (nodes (x_config ex) ! i) (remote i)"

text \<open>What the executor holds for a node, and the commands it launched for the node.\<close>

definition node_status :: "Executor \<Rightarrow> string \<Rightarrow> NodeStatus option" where
  "node_status ex n = map_option status (map_of (states ex) n)"

definition node_error :: "Executor \<Rightarrow> string \<Rightarrow> string option" where
  "node_error ex n = map_option error_message (map_of (states ex) n)"

definition attempted :: "string \<Rightarrow> Executor \<Rightarrow> string list" where
  "attempted n ex = map snd (filter (\<lambda>p. fst p = n) (launched ex))"

text \<open>
  How a process ends for \<open>_run_command\<close>: with exit status 0; with a failure the function
  returns as \<open>False\<close> (another exit status, or an \<open>asyncssh.Error\<close>); or with an exception
  that leaves the function.
\<close>

fun succeeds :: "proc \<Rightarrow> bool" where
  "succeeds (Proc ls (Exit s)) = (s = 0)"
| "succeeds (Proc ls (Raise e)) = False"

fun fails :: "proc \<Rightarrow> bool" where
  "fails (Proc ls (Exit s)) = (s \<noteq> 0)"
| "fails (Proc ls (Raise (SSHError e))) = True"
| "fails (Proc ls (Raise e)) = False"

definition returns :: "proc \<Rightarrow> bool" where
  "returns p = (succeeds p \<or> fails p)"

text \<open>The exception with which a process ends, if it ends with one.\<close>

fun raised :: "proc \<Rightarrow> exn option" where
  "raised (Proc ls (Exit s)) = None"
| "raised (Proc ls (Raise e)) = Some e"

text \<open>The text of a file; a file that is not there has none.\<close>

definition file_text :: "Executor \<Rightarrow> path \<Rightarrow> string" where
  "file_text ex f = (case read_file (dirs ex) (files ex) f of None \<Rightarrow> [] | Some t \<Rightarrow> t)"

text \<open>The text that holds the given lines, each ended by a line feed.\<close>

definition log_text :: "string list \<Rightarrow> string" where
  "log_text ls = concat (map (\<lambda>l. l @ [CHR 0x0A]) ls)"

text \<open>
  The text lines of a text: the pieces ended by a line feed, and what follows the last
  line feed when it is not empty.
\<close>

fun split_lines :: "string \<Rightarrow> string \<Rightarrow> string list" where
  "split_lines cur [] = (if cur = [] then [] else [cur])"
| "split_lines cur (c # cs) =
     (if c = CHR 0x0A then cur # split_lines [] cs else split_lines (cur @ [c]) cs)"

definition text_lines :: "string \<Rightarrow> string list" where
  "text_lines s = split_lines [] s"

text \<open>No node has a log file.\<close>

definition no_log_files :: "Executor \<Rightarrow> bool" where
  "no_log_files ex = (\<forall>n st. map_of (states ex) n = Some st \<longrightarrow> log_file st = None)"

text \<open>
  The invariant: the log file of every node can be opened and holds the node's history,
  and no two nodes have the same log file.
\<close>

definition logs_match :: "Executor \<Rightarrow> bool" where
  "logs_match ex =
     ((\<forall>n st f. map_of (states ex) n = Some st \<and> log_file st = Some f
         \<longrightarrow> open_append (dirs ex) f \<noteq> None \<and> file_text ex f = log_text (output_lines st)) \<and>
      (\<forall>n m st st' f f'. n \<noteq> m \<and> map_of (states ex) n = Some st \<and> map_of (states ex) m = Some st'
         \<and> log_file st = Some f \<and> log_file st' = Some f'
         \<longrightarrow> open_append (dirs ex) f \<noteq> open_append (dirs ex) f'))"

text \<open>
  The executor after the first k steps of a run: a point during the run. With k the number
  of all steps it is the executor after \<open>run_all\<close>.
\<close>

definition run_prefix :: "nat \<Rightarrow> string \<Rightarrow> (nat \<Rightarrow> connect_result) \<Rightarrow> nat list \<Rightarrow> Executor \<Rightarrow> Executor" where
  "run_prefix k timestamp remote schedule ex =
     fold exec (take k (steps_of_run timestamp remote schedule ex)) (initialised timestamp ex)"

text \<open>The output history the executor holds for a node.\<close>

definition node_history :: "Executor \<Rightarrow> string \<Rightarrow> string list option" where
  "node_history ex n = map_option output_lines (map_of (states ex) n)"

text \<open>The node an event is about.\<close>

fun event_node :: "event \<Rightarrow> string" where
  "event_node (OutputEvent n l) = n"
| "event_node (StatusEvent n s) = n"

text \<open>
  The calls the callbacks received for a node, each with the state of the node that the
  callback could read.
\<close>

definition seen :: "string \<Rightarrow> (event \<times> view) list \<Rightarrow> (event \<times> NodeState option) list" where
  "seen n cs = map (\<lambda>c. (fst c, seen_state (snd c))) (filter (\<lambda>c. event_node (fst c) = n) cs)"

text \<open>
  The same calls, from the steps of the node's driver alone: the call a step makes, given
  whether the log writes of the node succeed, the callbacks that are there and the state
  of the node after the step.
\<close>

fun new_call ::
  "string \<Rightarrow> bool \<Rightarrow> bool \<Rightarrow> bool \<Rightarrow> action \<Rightarrow> NodeState \<Rightarrow> (event \<times> NodeState) list" where
  "new_call n w out st (EmitStatus m t) s = (if st \<and> m = n then [(StatusEvent m t, s)] else [])"
| "new_call n w out st (EmitOutput m l) s =
     (if w \<and> out \<and> m = n then [(OutputEvent m l, s)] else [])"
| "new_call n w out st a s = []"

fun local_calls ::
  "string \<Rightarrow> bool \<Rightarrow> bool \<Rightarrow> bool \<Rightarrow> action list \<Rightarrow> NodeState \<Rightarrow> (event \<times> NodeState) list" where
  "local_calls n w out st [] s = []"
| "local_calls n w out st (a # as) s =
     new_call n w out st a (step n a s) @ local_calls n w out st as (step n a s)"

text \<open>
  No \<open>FAILED\<close> status is emitted once an error message was assigned; the flag says
  whether one was assigned before the steps.
\<close>

fun failed_then_message :: "bool \<Rightarrow> action list \<Rightarrow> bool" where
  "failed_then_message b [] = True"
| "failed_then_message b (EmitStatus n s # as) = ((s \<noteq> FAILED \<or> \<not> b) \<and> failed_then_message b as)"
| "failed_then_message b (SetError n m # as) = failed_then_message True as"
| "failed_then_message b (a # as) = failed_then_message b as"

section \<open>Example runs\<close>

text \<open>
  One node with two commands; the argument is its stop-on-error flag. The remote sides:
  a key file that cannot be read (\<open>asyncssh.KeyImportError\<close>, a \<open>ValueError\<close>), a
  connection that is reset during the first command, a second command that exits with
  status 2, and a host that refuses the connection.
\<close>

definition demo_node :: "bool \<Rightarrow> NodeConfig" where
  "demo_node soe =
     \<lparr>name = ''a'', host = ''h'', port = 22, commands = [''make'', ''make test''], user = ''root'',
      stop_on_error = soe, no_logs = False, work_dir = None, ssh_key = [''id_rsa''], timeout = 30\<rparr>"

definition demo_config :: "bool \<Rightarrow> Config" where
  "demo_config soe = \<lparr>nodes = [demo_node soe], log_dir = [''logs''], source_path = None\<rparr>"

definition key_refused :: "nat \<Rightarrow> connect_result" where
  "key_refused i = Refused (OtherError ''Passphrase must be specified to import encrypted private keys'')"

definition reset_session :: "nat \<Rightarrow> connect_result" where
  "reset_session i =
     Session (\<lambda>j c. if j = 0 then Proc [] (Raise (OSError ''Connection reset by peer''))
                     else Proc [] (Exit 0))"

definition second_fails :: "nat \<Rightarrow> string \<Rightarrow> proc" where
  "second_fails j c = Proc [(False, ''ok'' @ [CHR 0x0A])] (Exit (if j = 1 then 2 else 0))"

definition second_fails_session :: "nat \<Rightarrow> connect_result" where
  "second_fails_session i = Session second_fails"

definition host_down :: "nat \<Rightarrow> connect_result" where
  "host_down i = Refused (OSError ''Connection refused'')"

text \<open>
  A node whose one command has two lines (a block scalar of the YAML file), with a remote
  side where every command exits with status 0 and prints nothing.
\<close>

definition multiline_node :: NodeConfig where
  "multiline_node =
     \<lparr>name = ''a'', host = ''h'', port = 22, commands = [''echo a'' @ [CHR 0x0A] @ ''echo b''],
      user = ''root'', stop_on_error = True, no_logs = False, work_dir = None,
      ssh_key = [''id_rsa''], timeout = 30\<rparr>"

definition multiline_config :: Config where
  "multiline_config = \<lparr>nodes = [multiline_node], log_dir = [''logs''], source_path = None\<rparr>"

definition quiet_session :: "nat \<Rightarrow> connect_result" where
  "quiet_session i = Session (\<lambda>j c. Proc [] (Exit 0))"

text \<open>An executor during a run, with one node that has a log file.\<close>

definition logging_state :: NodeState where
  "logging_state = fresh_state (Some [''logs'', ''20240101_000000'']) (demo_node True)"

definition logging_executor :: Executor where
  "logging_executor =
     \<lparr>x_config = demo_config True, on_output = True, on_status = True, enable_logging = True,
      states = [(''a'', logging_state)], x_log_dir = Some [''logs'', ''20240101_000000''],
      dirs = {[''logs''], [''logs'', ''20240101_000000'']}, files = [], sink = [],
      launched = []\<rparr>"

text \<open>
  A node whose name has a slash: its log file is in a directory that the run does not
  make.
\<close>

definition nested_config :: Config where
  "nested_config =
     \<lparr>nodes = [(demo_node True)\<lparr>name := ''sub/a''\<rparr>], log_dir = [''logs''], source_path = None\<rparr>"

text \<open>A configuration whose only node has logging disabled.\<close>

definition silent_config :: Config where
  "silent_config =
     \<lparr>nodes = [(demo_node True)\<lparr>no_logs := True\<rparr>], log_dir = [''logs''],
      source_path = Some [''nodes.yaml'']\<rparr>"

section \<open>Lemmas\<close>

subsection \<open>The command runner\<close>

lemma emitted_append: "emitted (xs @ ys) = emitted xs @ emitted ys"
  by (induction xs rule: emitted.induct) simp_all

lemma emitted_read_stream:
  "emitted (map (read_stream n) ls) =
     map (\<lambda>l. (if fst l then ''STDERR: '' else '''') @ rstrip_nl (snd l)) ls"
  by (induction ls) (simp_all add: read_stream_def)

subsection \<open>Interleaving\<close>

lemma filter_concat_one:
  assumes "k < length ts" and "\<forall>a\<in>set (ts ! k). P a"
    and "\<forall>j<length ts. j \<noteq> k \<longrightarrow> (\<forall>a\<in>set (ts ! j). \<not> P a)"
  shows "filter P (concat ts) = ts ! k"
  using assms
proof (induction ts arbitrary: k)
  case Nil
  then show ?case by simp
next
  case (Cons t ts)
  show ?case
  proof (cases k)
    case 0
    have "\<forall>x\<in>set ts. \<forall>a\<in>set x. \<not> P a"
    proof
      fix x assume "x \<in> set ts"
      then obtain j where "j < length ts" "ts ! j = x" by (auto simp: in_set_conv_nth)
      with Cons.prems(3)[rule_format, of "Suc j"] 0 show "\<forall>a\<in>set x. \<not> P a" by simp
    qed
    then have "filter P (concat ts) = []" by (auto simp: filter_empty_conv)
    moreover have "filter P t = t" using Cons.prems(2) 0 by (simp add: filter_id_conv)
    ultimately show ?thesis using 0 by simp
  next
    case (Suc k')
    have "filter P t = []" using Cons.prems(3)[rule_format, of 0] Suc by (simp add: filter_empty_conv)
    moreover have "filter P (concat ts) = ts ! k'"
    proof (rule Cons.IH)
      show "k' < length ts" using Cons.prems(1) Suc by simp
      show "\<forall>a\<in>set (ts ! k'). P a" using Cons.prems(2) Suc by simp
      show "\<forall>j<length ts. j \<noteq> k' \<longrightarrow> (\<forall>a\<in>set (ts ! j). \<not> P a)"
        using Cons.prems(3) Suc by (metis Suc_less_eq length_Cons nat.inject nth_Cons_Suc)
    qed
    ultimately show ?thesis using Suc by simp
  qed
qed

lemma filter_interleave:
  assumes "k < length ts" and "\<forall>a\<in>set (ts ! k). P a"
    and "\<forall>j<length ts. j \<noteq> k \<longrightarrow> (\<forall>a\<in>set (ts ! j). \<not> P a)"
  shows "filter P (interleave s ts) = ts ! k"
  using assms
proof (induction s arbitrary: ts)
  case Nil
  then show ?case by (simp add: filter_concat_one)
next
  case (Cons j s)
  show ?case
  proof (cases "j < length ts")
    case False
    then show ?thesis using Cons by simp
  next
    case True
    show ?thesis
    proof (cases "ts ! j")
      case Nil
      then show ?thesis using True Cons by simp
    next
      case (Cons a as)
      let ?ts = "ts[j := as]"
      have len: "k < length ?ts" using Cons.prems(1) by simp
      show ?thesis
      proof (cases "j = k")
        case True
        have 1: "\<forall>a\<in>set (?ts ! k). P a"
          using Cons.prems(2) local.Cons True \<open>j < length ts\<close> by simp
        have 2: "\<forall>i<length ?ts. i \<noteq> k \<longrightarrow> (\<forall>a\<in>set (?ts ! i). \<not> P a)"
          using Cons.prems(3) True by simp
        have "filter P (interleave s ?ts) = ?ts ! k"
          by (rule Cons.IH[OF len 1 2])
        moreover have "P a" using Cons.prems(2) local.Cons True by simp
        ultimately show ?thesis using local.Cons \<open>j < length ts\<close> True by simp
      next
        case False
        have 1: "\<forall>a\<in>set (?ts ! k). P a"
          using Cons.prems(2) False by simp
        have 2: "\<forall>i<length ?ts. i \<noteq> k \<longrightarrow> (\<forall>a\<in>set (?ts ! i). \<not> P a)"
        proof (intro allI impI)
          fix i assume i: "i < length ?ts" "i \<noteq> k"
          show "\<forall>a\<in>set (?ts ! i). \<not> P a"
          proof (cases "i = j")
            case True
            have "\<forall>a\<in>set (ts ! j). \<not> P a" using Cons.prems(3) \<open>j < length ts\<close> False by simp
            then show ?thesis using True local.Cons \<open>j < length ts\<close> by simp
          next
            case False
            then show ?thesis using Cons.prems(3) i by simp
          qed
        qed
        have "filter P (interleave s ?ts) = ?ts ! k"
          by (rule Cons.IH[OF len 1 2])
        moreover have "\<not> P a" using Cons.prems(3) \<open>j < length ts\<close> False local.Cons by simp
        ultimately show ?thesis using local.Cons \<open>j < length ts\<close> False by simp
      qed
    qed
  qed
qed

lemma statuses_append: "statuses (xs @ ys) = statuses xs @ statuses ys"
  by (induction xs rule: statuses.induct) simp_all

lemma statuses_read_stream: "statuses (map (read_stream n) ls) = []"
  by (induction ls) (simp_all add: read_stream_def)

lemma statuses_run_command: "statuses (fst (run_command n c p)) = []"
  by (induction n c p rule: run_command.induct)
     (simp_all add: statuses_append statuses_read_stream)

lemma owner_run_command: "a \<in> set (fst (run_command n c p)) \<Longrightarrow> owner a = n"
  by (induction n c p rule: run_command.induct)
     (auto simp: read_stream_def split: if_splits)

lemma owner_run_commands:
  "a \<in> set (fst (run_commands node conn i cmds)) \<Longrightarrow> owner a = name node"
proof (induction cmds arbitrary: i)
  case Nil
  then show ?case by simp
next
  case (Cons cmd cmds)
  then show ?case
    by (auto simp: Let_def split: sum.splits if_splits dest: owner_run_command)
qed

lemma owner_handle_exn: "a \<in> set (fst (handle_exn n e)) \<Longrightarrow> owner a = n"
  by (cases e) auto

lemma owner_run_node: "a \<in> set (fst (run_node w node r)) \<Longrightarrow> owner a = name node"
  by (cases w)
     (auto simp: run_node_def connecting_def connected_def completed_def
      split: connect_result.splits loop_end.splits option.splits if_splits
      dest: owner_run_commands owner_handle_exn)

lemma statuses_run_commands:
  "statuses (fst (run_commands node conn i cmds)) =
     (if snd (run_commands node conn i cmds) = Returned then [FAILED] else [])"
proof (induction cmds arbitrary: i)
  case Nil
  then show ?case by simp
next
  case (Cons cmd cmds)
  then show ?case
    by (simp add: Let_def statuses_append statuses_run_command split: sum.splits)
qed

lemma statuses_connected: "statuses (connected node) = [RUNNING]"
  by (simp add: connected_def split: option.splits)

lemma statuses_run_node:
  "statuses (fst (run_node w node r)) =
     (if \<not> w then [CONNECTING]
      else case r of
        Refused e \<Rightarrow> (case e of OtherError m \<Rightarrow> [CONNECTING] | _ \<Rightarrow> [CONNECTING, FAILED])
      | Session conn \<Rightarrow>
          (case snd (run_commands node conn 0 (commands node)) of
             Completed \<Rightarrow> [CONNECTING, RUNNING, SUCCESS]
           | Returned \<Rightarrow> [CONNECTING, RUNNING, FAILED]
           | Raised e \<Rightarrow> (case e of OtherError m \<Rightarrow> [CONNECTING, RUNNING]
                          | _ \<Rightarrow> [CONNECTING, RUNNING, FAILED])))"
  by (simp add: run_node_def connecting_def completed_def statuses_connected statuses_append
      statuses_run_commands split: connect_result.splits loop_end.splits exn.splits)

lemma valid_path_run_node: "valid_path (PENDING # statuses (fst (run_node w node r)))"
  by (simp add: statuses_run_node split: connect_result.splits loop_end.splits exn.splits)

subsection \<open>What a step list does to the executor\<close>

lemma on_status_exec [simp]: "on_status (exec a ex) = on_status ex"
  by (cases a) (auto simp: emit_status_def emit_output_def call_on_output_def append_file_def assign_def Let_def split: option.splits)

lemma on_output_exec [simp]: "on_output (exec a ex) = on_output ex"
  by (cases a) (auto simp: emit_status_def emit_output_def call_on_output_def append_file_def assign_def Let_def split: option.splits)

lemma on_status_fold [simp]: "on_status (fold exec as ex) = on_status ex"
  by (induction as arbitrary: ex) simp_all

lemma on_output_fold [simp]: "on_output (fold exec as ex) = on_output ex"
  by (induction as arbitrary: ex) simp_all

lemma delivered_statuses_append:
  "delivered_statuses n (xs @ ys) = delivered_statuses n xs @ delivered_statuses n ys"
  by (induction n xs rule: delivered_statuses.induct) simp_all

lemma delivered_statuses_exec:
  "delivered_statuses n (sink (exec a ex)) =
     delivered_statuses n (sink ex) @ (if on_status ex \<and> owner a = n then statuses [a] else [])"
  by (cases a)
     (auto simp: emit_status_def emit_output_def call_on_output_def append_file_def assign_def Let_def delivered_statuses_append
       split: option.splits)

lemma statuses_filter_Cons:
  "statuses (filter P (a # as)) = (if P a then statuses [a] else []) @ statuses (filter P as)"
  by (cases a) simp_all

lemma delivered_statuses_fold:
  "delivered_statuses n (sink (fold exec as ex)) =
     delivered_statuses n (sink ex)
       @ (if on_status ex then statuses (filter (\<lambda>a. owner a = n) as) else [])"
proof (induction as arbitrary: ex)
  case Nil
  then show ?case by simp
next
  case (Cons a as)
  show ?case
    by (simp only: fold_simps Cons.IH delivered_statuses_exec statuses_filter_Cons on_status_exec)
       simp
qed

subsection \<open>Initialisation\<close>

lemma sink_setup_logging [simp]: "sink (setup_logging ts ex) = sink ex"
  by (simp add: setup_logging_def Let_def split: option.splits)

lemma launched_setup_logging [simp]: "launched (setup_logging ts ex) = launched ex"
  by (simp add: setup_logging_def Let_def split: option.splits)

lemma states_setup_logging [simp]: "states (setup_logging ts ex) = states ex"
  by (simp add: setup_logging_def Let_def split: option.splits)

lemma x_config_setup_logging [simp]: "x_config (setup_logging ts ex) = x_config ex"
  by (simp add: setup_logging_def Let_def split: option.splits)

lemma on_status_setup_logging [simp]: "on_status (setup_logging ts ex) = on_status ex"
  by (simp add: setup_logging_def Let_def split: option.splits)

lemma on_output_setup_logging [simp]: "on_output (setup_logging ts ex) = on_output ex"
  by (simp add: setup_logging_def Let_def split: option.splits)

lemma fold_init_state_fields [simp]:
  "sink (fold init_state ns ex) = sink ex"
  "launched (fold init_state ns ex) = launched ex"
  "x_config (fold init_state ns ex) = x_config ex"
  "on_status (fold init_state ns ex) = on_status ex"
  "on_output (fold init_state ns ex) = on_output ex"
  "x_log_dir (fold init_state ns ex) = x_log_dir ex"
  "files (fold init_state ns ex) = files ex"
  "dirs (fold init_state ns ex) = dirs ex"
  by (induction ns arbitrary: ex) (simp_all add: init_state_def Let_def)

lemma initialised_fields [simp]:
  "sink (initialised ts ex) = sink ex"
  "launched (initialised ts ex) = launched ex"
  "x_config (initialised ts ex) = x_config ex"
  "on_status (initialised ts ex) = on_status ex"
  "on_output (initialised ts ex) = on_output ex"
  by (simp_all add: initialised_def)

lemma init_state_fresh:
  "init_state node ex = ex\<lparr>states := AList.update (name node) (fresh_state (x_log_dir ex) node) (states ex)\<rparr>"
  by (simp add: init_state_def fresh_state_def Let_def)

lemma map_of_fold_init_state_other:
  "n \<notin> name ` set ns \<Longrightarrow> map_of (states (fold init_state ns ex)) n = map_of (states ex) n"
  by (induction ns arbitrary: ex) (auto simp: init_state_fresh update_conv')

lemma map_of_fold_init_state:
  "distinct (map name ns) \<Longrightarrow> node \<in> set ns \<Longrightarrow>
     map_of (states (fold init_state ns ex)) (name node) = Some (fresh_state (x_log_dir ex) node)"
proof (induction ns arbitrary: ex)
  case Nil
  then show ?case by simp
next
  case (Cons a ns)
  have x: "x_log_dir (init_state a ex) = x_log_dir ex" by (simp add: init_state_def Let_def)
  show ?case
  proof (cases "node = a")
    case True
    then have "name node \<notin> name ` set ns" using Cons.prems(1) by auto
    then show ?thesis using True
      by (simp add: map_of_fold_init_state_other) (simp add: init_state_fresh update_conv')
  next
    case False
    then have "node \<in> set ns" using Cons.prems(2) by simp
    then show ?thesis using Cons.IH[of "init_state a ex"] Cons.prems(1) by (simp add: x)
  qed
qed

lemma map_of_initialised:
  assumes "distinct (map name (nodes (x_config ex)))" and "i < length (nodes (x_config ex))"
  shows "map_of (states (initialised ts ex)) (name (nodes (x_config ex) ! i)) =
           Some (fresh_state (x_log_dir (setup_logging ts ex)) (nodes (x_config ex) ! i))"
  using assms by (simp add: initialised_def map_of_fold_init_state)

subsection \<open>The steps of one node in a run\<close>

lemma steps_of_node:
  assumes "distinct (map name (nodes (x_config ex)))" and "i < length (nodes (x_config ex))"
  shows "filter (\<lambda>a. owner a = name (nodes (x_config ex) ! i)) (steps_of_run ts remote schedule ex) =
           fst (driver ts remote ex i)"
proof -
  let ?ns = "nodes (x_config ex)"
  let ?ts = "map fst (drivers remote (initialised ts ex))"
  have len: "i < length ?ts" using assms(2) by (simp add: drivers_def)
  have nth: "\<And>j. j < length ?ns \<Longrightarrow> ?ts ! j = fst (driver ts remote ex j)"
    by (simp add: drivers_def driver_def)
  have own: "\<forall>a\<in>set (?ts ! i). owner a = name (?ns ! i)"
    using nth[OF assms(2)] by (auto simp: driver_def dest: owner_run_node)
  have other: "\<forall>j<length ?ts. j \<noteq> i \<longrightarrow> (\<forall>a\<in>set (?ts ! j). \<not> owner a = name (?ns ! i))"
  proof (intro allI impI ballI)
    fix j a assume j: "j < length ?ts" "j \<noteq> i" and a: "a \<in> set (?ts ! j)"
    from j have jl: "j < length ?ns" by (simp add: drivers_def)
    with a have "owner a = name (?ns ! j)"
      using nth[OF jl] by (auto simp: driver_def dest: owner_run_node)
    moreover have "name (?ns ! j) \<noteq> name (?ns ! i)"
      using assms jl j(2) by (metis distinct_conv_nth length_map nth_map)
    ultimately show "\<not> owner a = name (?ns ! i)" by simp
  qed
  have "filter (\<lambda>a. owner a = name (?ns ! i)) (interleave schedule ?ts) = ?ts ! i"
    by (rule filter_interleave[OF len own other])
  then show ?thesis using nth[OF assms(2)] by (simp add: steps_of_run_def)
qed

lemma map_of_states_exec:
  "map_of (states (exec a ex)) n = map_option (step n a) (map_of (states ex) n)"
  by (cases a; cases "map_of (states ex) n")
     (auto simp: emit_status_def emit_output_def call_on_output_def append_file_def assign_def Let_def update_conv' map_of_map_entry
       split: option.splits)

lemma map_of_states_fold:
  "map_of (states (fold exec as ex)) n = map_option (fold (step n) as) (map_of (states ex) n)"
proof (induction as arbitrary: ex)
  case Nil
  then show ?case by (simp add: option.map_ident)
next
  case (Cons a as)
  show ?case by (simp add: Cons.IH map_of_states_exec option.map_comp comp_def)
qed

lemma step_other: "owner a \<noteq> n \<Longrightarrow> step n a st = st"
  by (cases a) auto

lemma fold_step_filter:
  "fold (step n) as st = fold (step n) (filter (\<lambda>a. owner a = n) as) st"
  by (induction as arbitrary: st) (simp_all add: step_other)

lemma status_fold_step:
  "\<forall>a\<in>set as. owner a = n \<Longrightarrow> status (fold (step n) as st) = last (status st # statuses as)"
proof (induction as arbitrary: st)
  case Nil
  then show ?case by simp
next
  case (Cons a as)
  then show ?case by (cases a) auto
qed

lemma error_message_fold_step:
  "\<forall>a\<in>set as. owner a = n \<Longrightarrow>
     error_message (fold (step n) as st) = last (error_message st # errors as)"
proof (induction as arbitrary: st)
  case Nil
  then show ?case by simp
next
  case (Cons a as)
  then show ?case by (cases a) auto
qed

lemma output_lines_fold_step:
  "\<forall>a\<in>set as. owner a = n \<Longrightarrow>
     output_lines (fold (step n) as st) = output_lines st @ emitted as"
proof (induction as arbitrary: st)
  case Nil
  then show ?case by simp
next
  case (Cons a as)
  then show ?case by (cases a) auto
qed

lemma launched_emit [simp]:
  "launched (emit_status n s ex) = launched ex"
  "launched (fst (emit_output n l ex)) = launched ex"
  "launched (assign n f ex) = launched ex"
  by (auto simp: emit_status_def emit_output_def call_on_output_def append_file_def assign_def Let_def split: option.splits)

lemma attempted_exec:
  "attempted n (exec a ex) = attempted n ex @ (if owner a = n then created [a] else [])"
  by (cases a) (auto simp: attempted_def)

lemma created_filter_Cons:
  "created (filter P (a # as)) = (if P a then created [a] else []) @ created (filter P as)"
  by (cases a) simp_all

lemma attempted_fold:
  "attempted n (fold exec as ex) = attempted n ex @ created (filter (\<lambda>a. owner a = n) as)"
proof (induction as arbitrary: ex)
  case Nil
  then show ?case by simp
next
  case (Cons a as)
  show ?case
    by (simp only: fold_simps Cons.IH attempted_exec created_filter_Cons) simp
qed

text \<open>The state of a node and the commands launched for it when \<open>run_all\<close> returns.\<close>

lemma node_state_run_all:
  assumes "distinct (map name (nodes (x_config ex)))" and "i < length (nodes (x_config ex))"
  shows "map_of (states (run_all ts remote schedule ex)) (name (nodes (x_config ex) ! i)) =
     Some (fold (step (name (nodes (x_config ex) ! i)))
             (fst (driver ts remote ex i))
             (fresh_state (x_log_dir (setup_logging ts ex)) (nodes (x_config ex) ! i)))"
proof -
  let ?n = "name (nodes (x_config ex) ! i)"
  have "fold (step ?n) (steps_of_run ts remote schedule ex) =
        fold (step ?n) (fst (driver ts remote ex i))"
    by (rule ext, subst fold_step_filter) (simp add: steps_of_node[OF assms])
  then show ?thesis
    by (simp add: run_all_def map_of_states_fold map_of_initialised[OF assms])
qed

lemma attempted_run_all:
  assumes "distinct (map name (nodes (x_config ex)))" and "i < length (nodes (x_config ex))"
  shows "attempted (name (nodes (x_config ex) ! i)) (run_all ts remote schedule ex) =
     attempted (name (nodes (x_config ex) ! i)) ex
       @ created (fst (driver ts remote ex i))"
  by (simp add: run_all_def attempted_fold steps_of_node[OF assms])
     (simp add: attempted_def)

lemma delivered_statuses_run_all:
  assumes "distinct (map name (nodes (x_config ex)))" and "i < length (nodes (x_config ex))"
  shows "delivered_statuses (name (nodes (x_config ex) ! i)) (sink (run_all ts remote schedule ex)) =
     delivered_statuses (name (nodes (x_config ex) ! i)) (sink ex)
       @ (if on_status ex then statuses (fst (driver ts remote ex i)) else [])"
  by (simp add: run_all_def delivered_statuses_fold steps_of_node[OF assms])

lemma Executor_init_fields [simp]:
  "x_config (Executor_init cfg out st lg ds fs) = cfg"
  "on_output (Executor_init cfg out st lg ds fs) = out"
  "on_status (Executor_init cfg out st lg ds fs) = st"
  "enable_logging (Executor_init cfg out st lg ds fs) = lg"
  "states (Executor_init cfg out st lg ds fs) = []"
  "x_log_dir (Executor_init cfg out st lg ds fs) = None"
  "dirs (Executor_init cfg out st lg ds fs) = ds"
  "files (Executor_init cfg out st lg ds fs) = fs"
  "sink (Executor_init cfg out st lg ds fs) = []"
  "launched (Executor_init cfg out st lg ds fs) = []"
  by (simp_all add: Executor_init_def)

lemma created_append: "created (xs @ ys) = created xs @ created ys"
  by (induction xs rule: created.induct) simp_all

lemma errors_append: "errors (xs @ ys) = errors xs @ errors ys"
  by (induction xs rule: errors.induct) simp_all

lemma created_read_stream: "created (map (read_stream n) ls) = []"
  by (induction ls) (simp_all add: read_stream_def)

lemma errors_read_stream: "errors (map (read_stream n) ls) = []"
  by (induction ls) (simp_all add: read_stream_def)

lemma created_run_command: "created (fst (run_command n c p)) = [c]"
  by (induction n c p rule: run_command.induct)
     (simp_all add: created_append created_read_stream)

lemma errors_run_command: "errors (fst (run_command n c p)) = []"
  by (induction n c p rule: run_command.induct)
     (simp_all add: errors_append errors_read_stream)

lemma snd_run_command:
  "snd (run_command n c p) =
     (if succeeds p then Inr True else if fails p then Inr False
      else (case p of Proc ls (Raise e) \<Rightarrow> Inl e | _ \<Rightarrow> Inr False))"
  by (induction n c p rule: run_command.induct) simp_all

lemma snd_run_command_succeeds: "succeeds p \<Longrightarrow> snd (run_command n c p) = Inr True"
  by (simp add: snd_run_command)

lemma fails_not_succeeds: "fails p \<Longrightarrow> \<not> succeeds p"
  by (induction p rule: fails.induct) simp_all

lemma snd_run_command_fails: "fails p \<Longrightarrow> snd (run_command n c p) = Inr False"
  by (simp add: snd_run_command fails_not_succeeds)

lemma snd_run_command_returns: "returns p \<Longrightarrow> snd (run_command n c p) = Inr (succeeds p)"
  by (auto simp: returns_def snd_run_command fails_not_succeeds)

text \<open>The loop with stop-on-error, when the first command that does not succeed fails.\<close>

lemma run_commands_stop:
  assumes "stop_on_error node" and "k < length cmds"
    and "\<forall>j<k. succeeds (conn (i + j) (actual_cmd (work_dir node) (cmds ! j)))"
    and "fails (conn (i + k) (actual_cmd (work_dir node) (cmds ! k)))"
  shows "snd (run_commands node conn i cmds) = Returned \<and>
         created (fst (run_commands node conn i cmds)) =
           map (actual_cmd (work_dir node)) (take (Suc k) cmds) \<and>
         errors (fst (run_commands node conn i cmds)) = [''Command failed: '' @ cmds ! k]"
  using assms
proof (induction cmds arbitrary: i k)
  case Nil
  then show ?case by simp
next
  case (Cons cmd cmds)
  show ?case
  proof (cases k)
    case 0
    then have "fails (conn i (actual_cmd (work_dir node) cmd))" using Cons.prems(4) by simp
    then show ?thesis using 0 Cons.prems(1)
      by (simp add: Let_def snd_run_command_fails created_append created_run_command
          errors_append errors_run_command)
  next
    case (Suc k')
    have s0: "succeeds (conn i (actual_cmd (work_dir node) cmd))"
      using Cons.prems(3)[rule_format, of 0] Suc by simp
    have ih: "snd (run_commands node conn (Suc i) cmds) = Returned \<and>
         created (fst (run_commands node conn (Suc i) cmds)) =
           map (actual_cmd (work_dir node)) (take (Suc k') cmds) \<and>
         errors (fst (run_commands node conn (Suc i) cmds)) = [''Command failed: '' @ cmds ! k']"
    proof (rule Cons.IH[OF Cons.prems(1)])
      show "k' < length cmds" using Cons.prems(2) Suc by simp
      show "\<forall>j<k'. succeeds (conn (Suc i + j) (actual_cmd (work_dir node) (cmds ! j)))"
      proof (intro allI impI)
        fix j assume "j < k'"
        then have "Suc j < k" using Suc by simp
        from Cons.prems(3)[rule_format, OF this] show
          "succeeds (conn (Suc i + j) (actual_cmd (work_dir node) (cmds ! j)))" by simp
      qed
      show "fails (conn (Suc i + k') (actual_cmd (work_dir node) (cmds ! k')))"
        using Cons.prems(4) Suc by simp
    qed
    show ?thesis using Suc s0 ih
      by (simp add: Let_def snd_run_command_succeeds created_append created_run_command
          errors_append errors_run_command)
  qed
qed

text \<open>The loop without stop-on-error, when no exception leaves \<open>_run_command\<close>.\<close>

lemma run_commands_continue:
  assumes "\<not> stop_on_error node"
    and "\<forall>j<length cmds. returns (conn (i + j) (actual_cmd (work_dir node) (cmds ! j)))"
  shows "snd (run_commands node conn i cmds) = Completed \<and>
         created (fst (run_commands node conn i cmds)) = map (actual_cmd (work_dir node)) cmds \<and>
         errors (fst (run_commands node conn i cmds)) = []"
  using assms
proof (induction cmds arbitrary: i)
  case Nil
  then show ?case by simp
next
  case (Cons cmd cmds)
  have r0: "returns (conn i (actual_cmd (work_dir node) cmd))"
    using Cons.prems(2)[rule_format, of 0] by simp
  have ih: "snd (run_commands node conn (Suc i) cmds) = Completed \<and>
         created (fst (run_commands node conn (Suc i) cmds)) = map (actual_cmd (work_dir node)) cmds \<and>
         errors (fst (run_commands node conn (Suc i) cmds)) = []"
  proof (rule Cons.IH[OF Cons.prems(1)])
    show "\<forall>j<length cmds. returns (conn (Suc i + j) (actual_cmd (work_dir node) (cmds ! j)))"
    proof (intro allI impI)
      fix j assume "j < length cmds"
      then have "Suc j < length (cmd # cmds)" by simp
      from Cons.prems(2)[rule_format, OF this] show
        "returns (conn (Suc i + j) (actual_cmd (work_dir node) (cmds ! j)))" by simp
    qed
  qed
  show ?case using r0 ih Cons.prems(1)
    by (simp add: Let_def snd_run_command_returns created_append created_run_command
        errors_append errors_run_command)
qed

lemma created_connected [simp]: "created (connected node) = []"
  by (simp add: connected_def split: option.splits)

lemma errors_connected [simp]: "errors (connected node) = []"
  by (simp add: connected_def split: option.splits)

lemma created_connecting [simp]: "created (connecting node) = []"
  by (simp add: connecting_def)

lemma errors_connecting [simp]: "errors (connecting node) = []"
  by (simp add: connecting_def)

lemma created_completed [simp]: "created (completed node) = []"
  by (simp add: completed_def)

lemma errors_completed [simp]: "errors (completed node) = []"
  by (simp add: completed_def)

lemma run_node_stop:
  assumes "stop_on_error node" and "k < length (commands node)"
    and "\<forall>j<k. succeeds (conn j (actual_cmd (work_dir node) (commands node ! j)))"
    and "fails (conn k (actual_cmd (work_dir node) (commands node ! k)))"
  shows "created (fst (run_node True node (Session conn))) =
           map (actual_cmd (work_dir node)) (take (Suc k) (commands node)) \<and>
         statuses (fst (run_node True node (Session conn))) = [CONNECTING, RUNNING, FAILED] \<and>
         errors (fst (run_node True node (Session conn))) = [''Command failed: '' @ commands node ! k]"
proof -
  have "snd (run_commands node conn 0 (commands node)) = Returned \<and>
         created (fst (run_commands node conn 0 (commands node))) =
           map (actual_cmd (work_dir node)) (take (Suc k) (commands node)) \<and>
         errors (fst (run_commands node conn 0 (commands node))) =
           [''Command failed: '' @ commands node ! k]"
    by (rule run_commands_stop) (use assms in simp_all)
  then show ?thesis
    by (simp add: statuses_run_node) (simp add: run_node_def created_append errors_append)
qed

lemma run_node_continue:
  assumes "\<not> stop_on_error node"
    and "\<forall>j<length (commands node). returns (conn j (actual_cmd (work_dir node) (commands node ! j)))"
  shows "created (fst (run_node True node (Session conn))) =
           map (actual_cmd (work_dir node)) (commands node) \<and>
         statuses (fst (run_node True node (Session conn))) = [CONNECTING, RUNNING, SUCCESS]"
proof -
  have "snd (run_commands node conn 0 (commands node)) = Completed \<and>
         created (fst (run_commands node conn 0 (commands node))) =
           map (actual_cmd (work_dir node)) (commands node) \<and>
         errors (fst (run_commands node conn 0 (commands node))) = []"
    by (rule run_commands_continue) (use assms in simp_all)
  then show ?thesis
    by (simp add: statuses_run_node) (simp add: run_node_def created_append)
qed

lemma snd_run_node:
  "snd (run_node True node r) =
     (case r of
        Refused e \<Rightarrow> (case e of OtherError m \<Rightarrow> Some e | _ \<Rightarrow> None)
      | Session conn \<Rightarrow>
          (case snd (run_commands node conn 0 (commands node)) of
             Raised e \<Rightarrow> (case e of OtherError m \<Rightarrow> Some e | _ \<Rightarrow> None)
           | _ \<Rightarrow> None))"
  by (simp add: run_node_def split: connect_result.splits loop_end.splits exn.splits)

lemma escaping_exception_is_other: "snd (run_node True node r) = Some e \<Longrightarrow> \<exists>m. e = OtherError m"
  by (auto simp: snd_run_node split: connect_result.splits loop_end.splits exn.splits)

lemma last_statuses_run_node:
  "last (PENDING # statuses (fst (run_node True node r))) \<in> {SUCCESS, FAILED}
     \<longleftrightarrow> snd (run_node True node r) = None"
  by (simp add: statuses_run_node snd_run_node
      split: connect_result.splits loop_end.splits exn.splits)

lemma last_statuses_run_node_escape:
  "snd (run_node True node r) \<noteq> None \<Longrightarrow>
     last (PENDING # statuses (fst (run_node True node r))) \<in> {CONNECTING, RUNNING}"
  by (simp add: statuses_run_node snd_run_node
      split: connect_result.splits loop_end.splits exn.splits)

lemma status_run_all:
  assumes "distinct (map name (nodes cfg))" and "i < length (nodes cfg)"
  shows "map_option status
           (map_of (states (run_all ts remote schedule (Executor_init cfg out st lg ds fs)))
              (name (nodes cfg ! i))) =
         Some (last (PENDING # statuses (fst (driver ts remote (Executor_init cfg out st lg ds fs) i))))"
proof -
  let ?ex = "Executor_init cfg out st lg ds fs"
  have d: "distinct (map name (nodes (x_config ?ex)))" and l: "i < length (nodes (x_config ?ex))"
    using assms by simp_all
  have own: "\<forall>a\<in>set (fst (driver ts remote (Executor_init cfg out st lg ds fs) i)). owner a = name (nodes cfg ! i)"
    by (auto simp: driver_def dest: owner_run_node)
  show ?thesis
    using node_state_run_all[OF d l, of ts remote schedule]
    by (simp add: status_fold_step[OF own] fresh_state_def)
qed

lemma error_message_run_all:
  assumes "distinct (map name (nodes cfg))" and "i < length (nodes cfg)"
  shows "map_option error_message
           (map_of (states (run_all ts remote schedule (Executor_init cfg out st lg ds fs)))
              (name (nodes cfg ! i))) =
         Some (last ([] # errors (fst (driver ts remote (Executor_init cfg out st lg ds fs) i))))"
proof -
  let ?ex = "Executor_init cfg out st lg ds fs"
  have d: "distinct (map name (nodes (x_config ?ex)))" and l: "i < length (nodes (x_config ?ex))"
    using assms by simp_all
  have own: "\<forall>a\<in>set (fst (driver ts remote (Executor_init cfg out st lg ds fs) i)). owner a = name (nodes cfg ! i)"
    by (auto simp: driver_def dest: owner_run_node)
  show ?thesis
    using node_state_run_all[OF d l, of ts remote schedule]
    by (simp add: error_message_fold_step[OF own] fresh_state_def)
qed

lemma attempted_run_all_init:
  assumes "distinct (map name (nodes cfg))" and "i < length (nodes cfg)"
  shows "attempted (name (nodes cfg ! i))
           (run_all ts remote schedule (Executor_init cfg out st lg ds fs)) =
         created (fst (driver ts remote (Executor_init cfg out st lg ds fs) i))"
proof -
  let ?ex = "Executor_init cfg out st lg ds fs"
  have d: "distinct (map name (nodes (x_config ?ex)))" and l: "i < length (nodes (x_config ?ex))"
    using assms by simp_all
  show ?thesis
    using attempted_run_all[OF d l, of ts remote schedule] by (simp add: attempted_def)
qed

text \<open>The definitions that evaluate a run on given inputs.\<close>

lemmas run_defs = run_all_def steps_of_run_def initialised_def drivers_def run_node_def
  setup_logging_def init_state_def Executor_init_def connecting_def connected_def completed_def
  emit_status_def emit_output_def call_on_output_def assign_def snapshot_def append_file_def
  log_writable_def open_append_def read_file_def path_join_def path_parts_def Let_def
  demo_node_def demo_config_def str_int_def digit_char_def attempted_def node_status_def
  node_error_def read_stream_def rstrip_nl_def

lemma keys_map_entry: "map fst (AList.map_entry k f al) = map fst al"
  by (induction al) auto

lemma keys_update_present: "map_of al k = Some v \<Longrightarrow> map fst (AList.update k v' al) = map fst al"
  by (induction al) (auto split: if_splits)

lemma keys_exec: "map fst (states (exec a ex)) = map fst (states ex)"
  by (cases a)
     (auto simp: emit_status_def emit_output_def call_on_output_def append_file_def assign_def Let_def keys_map_entry
       keys_update_present split: option.splits)

lemma keys_fold_exec: "map fst (states (fold exec as ex)) = map fst (states ex)"
  by (induction as arbitrary: ex) (simp_all add: keys_exec)

lemma keys_fold_init_state:
  "distinct (map name ns) \<Longrightarrow> set (map name ns) \<inter> set (map fst (states ex)) = {} \<Longrightarrow>
     map fst (states (fold init_state ns ex)) = map fst (states ex) @ map name ns"
proof (induction ns arbitrary: ex)
  case Nil
  then show ?case by simp
next
  case (Cons a ns)
  have k: "map fst (states (init_state a ex)) = map fst (states ex) @ [name a]"
    using Cons.prems(2) by (simp add: init_state_fresh update_keys)
  have "map fst (states (fold init_state ns (init_state a ex))) =
        map fst (states (init_state a ex)) @ map name ns"
    by (rule Cons.IH) (use Cons.prems k in auto)
  then show ?case using k by simp
qed

lemma keys_run_all:
  assumes "distinct (map name (nodes cfg))"
  shows "map fst (states (run_all ts remote schedule (Executor_init cfg out st lg ds fs))) =
           map name (nodes cfg)"
  using keys_fold_init_state[OF assms, of "setup_logging ts (Executor_init cfg out st lg ds fs)"]
  by (simp add: run_all_def keys_fold_exec initialised_def)

lemma keys_filter_values:
  "distinct (map fst al) \<Longrightarrow>
     map fst (filter (\<lambda>p. P (snd p)) al) =
     filter (\<lambda>k. case map_of al k of None \<Rightarrow> False | Some v \<Rightarrow> P v) (map fst al)"
proof (induction al)
  case Nil
  then show ?case by simp
next
  case (Cons p al)
  obtain k v where p: "p = (k, v)" by (cases p)
  have "filter (\<lambda>k'. case map_of (p # al) k' of None \<Rightarrow> False | Some v \<Rightarrow> P v) (map fst al) =
        filter (\<lambda>k'. case map_of al k' of None \<Rightarrow> False | Some v \<Rightarrow> P v) (map fst al)"
    by (rule filter_cong) (use Cons.prems p in auto)
  then show ?case using Cons p by simp
qed

lemma failed_nodes_run_all:
  assumes "distinct (map name (nodes cfg))"
  shows "failed_nodes (states (run_all ts remote schedule (Executor_init cfg out st lg ds fs))) =
           filter (\<lambda>n. node_status (run_all ts remote schedule (Executor_init cfg out st lg ds fs)) n
                        = Some FAILED) (map name (nodes cfg))"
proof -
  let ?ex = "run_all ts remote schedule (Executor_init cfg out st lg ds fs)"
  have d: "distinct (map fst (states ?ex))" using keys_run_all[OF assms] assms by simp
  have "failed_nodes (states ?ex) =
        filter (\<lambda>k. case map_of (states ?ex) k of None \<Rightarrow> False | Some v \<Rightarrow> status v = FAILED)
          (map fst (states ?ex))"
    unfolding failed_nodes_def by (rule keys_filter_values[OF d])
  also have "\<dots> = filter (\<lambda>n. node_status ?ex n = Some FAILED) (map fst (states ?ex))"
    by (rule filter_cong) (auto simp: node_status_def split: option.splits)
  finally show ?thesis by (simp add: keys_run_all[OF assms])
qed

text \<open>
  \<open>_run_headless\<close> looks for \<open>FAILED\<close> only: the exit code is 1 exactly when some node is
  \<open>FAILED\<close> when \<open>run_all\<close> returns, and the names of those nodes are printed to the
  standard error stream.
\<close>

lemma headless_exit_code_failed:
  assumes "distinct (map name (nodes cfg))"
  shows "exit_code (run_headless ts remote schedule ds fs cfg lg) =
           (if \<exists>i<length (nodes cfg).
                 node_status (run_all ts remote schedule (headless_executor cfg lg ds fs))
                   (name (nodes cfg ! i)) = Some FAILED then 1 else 0) \<and>
         stderr (run_headless ts remote schedule ds fs cfg lg) =
           (if exit_code (run_headless ts remote schedule ds fs cfg lg) = 0 then []
            else [CHR 0x0A # ''Failed nodes: '' @ join '', ''
                    (filter (\<lambda>n. node_status (run_all ts remote schedule (headless_executor cfg lg ds fs)) n
                                 = Some FAILED) (map name (nodes cfg)))])"
proof -
  let ?ex = "run_all ts remote schedule (headless_executor cfg lg ds fs)"
  let ?failed = "filter (\<lambda>n. node_status ?ex n = Some FAILED) (map name (nodes cfg))"
  have f: "failed_nodes (states ?ex) = ?failed"
    unfolding headless_executor_def by (rule failed_nodes_run_all[OF assms])
  have ne: "?failed \<noteq> [] \<longleftrightarrow>
            (\<exists>i<length (nodes cfg). node_status ?ex (name (nodes cfg ! i)) = Some FAILED)"
    by (simp add: filter_empty_conv) (metis in_set_conv_nth nth_mem)
  have code: "exit_code (run_headless ts remote schedule ds fs cfg lg) = (if ?failed \<noteq> [] then 1 else 0)"
    by (simp add: run_headless_def Let_def f)
  have err: "stderr (run_headless ts remote schedule ds fs cfg lg) =
             (if ?failed \<noteq> [] then [CHR 0x0A # ''Failed nodes: '' @ join '', '' ?failed] else [])"
    by (simp add: run_headless_def Let_def f)
  show ?thesis
    unfolding code err using ne by (simp only: split: if_splits) auto
qed

subsection \<open>Log files\<close>

lemma log_file_step [simp]: "log_file (step n a st) = log_file st"
  by (cases a) auto

lemma log_file_fold_step [simp]: "log_file (fold (step n) as st) = log_file st"
  by (induction as arbitrary: st) simp_all

lemma dirs_exec [simp]: "dirs (exec a ex) = dirs ex"
  by (cases a)
     (auto simp: emit_status_def emit_output_def call_on_output_def append_file_def assign_def Let_def
       split: option.splits sum.splits)

lemma dirs_fold_exec [simp]: "dirs (fold exec as ex) = dirs ex"
  by (induction as arbitrary: ex) simp_all

lemma x_log_dir_exec [simp]: "x_log_dir (exec a ex) = x_log_dir ex"
  by (cases a)
     (auto simp: emit_status_def emit_output_def call_on_output_def append_file_def assign_def Let_def
       split: option.splits sum.splits)

lemma x_log_dir_fold_exec [simp]: "x_log_dir (fold exec as ex) = x_log_dir ex"
  by (induction as arbitrary: ex) simp_all

lemma no_log_files_exec: "no_log_files ex \<Longrightarrow> no_log_files (exec a ex)"
  unfolding no_log_files_def by (auto simp: map_of_states_exec)

lemma files_exec_no_log: "no_log_files ex \<Longrightarrow> files (exec a ex) = files ex"
  unfolding no_log_files_def
  by (cases a)
     (auto simp: emit_status_def emit_output_def call_on_output_def append_file_def assign_def Let_def
       split: option.splits sum.splits)

lemma fold_exec_no_log:
  "no_log_files ex \<Longrightarrow> no_log_files (fold exec as ex) \<and> files (fold exec as ex) = files ex"
proof (induction as arbitrary: ex)
  case Nil
  then show ?case by simp
next
  case (Cons a as)
  then show ?case using no_log_files_exec[of ex a] files_exec_no_log[of ex a] by simp
qed

lemma map_of_fold_init_state_cases:
  "map_of (states (fold init_state ns ex)) n = Some st \<Longrightarrow>
     map_of (states ex) n = Some st \<or> (\<exists>node\<in>set ns. st = fresh_state (x_log_dir ex) node)"
proof (induction ns arbitrary: ex)
  case Nil
  then show ?case by simp
next
  case (Cons a ns)
  have x: "x_log_dir (init_state a ex) = x_log_dir ex" by (simp add: init_state_def Let_def)
  from Cons.IH[OF Cons.prems[simplified]] show ?case
    by (auto simp: x init_state_fresh update_conv' split: if_splits)
qed

lemma x_log_dir_setup_logging:
  "x_log_dir (setup_logging ts ex) =
     (if enable_logging ex \<and> \<not> list_all no_logs (nodes (x_config ex))
      then Some (log_dir (x_config ex) @ [ts]) else x_log_dir ex)"
  by (simp add: setup_logging_def Let_def split: option.splits)

lemma setup_logging_off:
  "\<not> enable_logging ex \<or> list_all no_logs (nodes (x_config ex)) \<Longrightarrow> setup_logging ts ex = ex"
  by (auto simp: setup_logging_def)

lemma dirs_setup_logging:
  "enable_logging ex \<Longrightarrow> \<not> list_all no_logs (nodes (x_config ex)) \<Longrightarrow>
     dirs (setup_logging ts ex) = mkdir_parents (log_dir (x_config ex) @ [ts]) (dirs ex)"
  by (simp add: setup_logging_def Let_def split: option.splits)

lemma mkdir_parents_self: "p \<noteq> [] \<Longrightarrow> p \<in> mkdir_parents p ds"
proof -
  assume "p \<noteq> []"
  then have "length p \<in> set [1..<Suc (length p)]" by (cases p) auto
  then have "take (length p) p \<in> (\<lambda>k. take k p) ` set [1..<Suc (length p)]"
    by (rule imageI)
  then show ?thesis by (simp add: mkdir_parents_def)
qed

lemma no_log_files_initialised:
  assumes "\<not> lg \<or> list_all no_logs (nodes cfg)"
  shows "no_log_files (initialised ts (Executor_init cfg out st lg ds fs))"
proof -
  let ?ex = "Executor_init cfg out st lg ds fs"
  have s: "setup_logging ts ?ex = ?ex" using assms by (intro setup_logging_off) simp
  show ?thesis
    unfolding no_log_files_def initialised_def s
    by (auto dest!: map_of_fold_init_state_cases simp: fresh_state_def)
qed

subsection \<open>History and log file\<close>

lemma split_lines_line:
  "CHR 0x0A \<notin> set l \<Longrightarrow> split_lines cur (l @ CHR 0x0A # rest) = (cur @ l) # split_lines [] rest"
  by (induction l arbitrary: cur) auto

lemma text_lines_log_text:
  "\<forall>l\<in>set ls. CHR 0x0A \<notin> set l \<Longrightarrow> text_lines (log_text ls) = ls"
  unfolding text_lines_def log_text_def
  by (induction ls) (simp_all add: split_lines_line)

lemma log_text_snoc: "log_text (ls @ [l]) = log_text ls @ l @ [CHR 0x0A]"
  by (simp add: log_text_def)

lemma open_append_walk: "open_append ds f = Some r \<Longrightarrow> walk ds [] f = Some r"
  by (auto simp: open_append_def split: option.splits if_splits)

lemma file_text_open:
  "open_append (dirs ex) f = Some r \<Longrightarrow>
     file_text ex f = (case map_of (files ex) r of None \<Rightarrow> [] | Some t \<Rightarrow> t)"
  by (simp add: file_text_def read_file_def open_append_walk)

lemma dirs_emit_output [simp]: "dirs (fst (emit_output n l ex)) = dirs ex"
  by (auto simp: emit_output_def call_on_output_def append_file_def Let_def
      split: option.splits sum.splits)

lemma files_emit_output:
  "files (fst (emit_output n l ex)) =
     (case map_of (states ex) n of
        None \<Rightarrow> files ex
      | Some st \<Rightarrow>
          (case log_file st of
             None \<Rightarrow> files ex
           | Some f \<Rightarrow>
               (case open_append (dirs ex) f of
                  None \<Rightarrow> files ex
                | Some r \<Rightarrow>
                    AList.update r
                      ((case map_of (files ex) r of None \<Rightarrow> [] | Some old \<Rightarrow> old) @ l @ [CHR 0x0A])
                      (files ex))))"
  by (auto simp: emit_output_def call_on_output_def append_file_def Let_def
      split: option.splits sum.splits)

lemma files_exec_not_output:
  "\<forall>n l. a \<noteq> EmitOutput n l \<Longrightarrow> files (exec a ex) = files ex"
  by (cases a) (auto simp: emit_status_def assign_def Let_def split: option.splits)

lemma file_text_exec_other:
  assumes "open_append (dirs ex) f = Some r"
    and "\<forall>st f'. map_of (states ex) (owner a) = Some st \<and> log_file st = Some f'
           \<longrightarrow> open_append (dirs ex) f' \<noteq> Some r"
  shows "file_text (exec a ex) f = file_text ex f"
proof (cases "\<exists>n l. a = EmitOutput n l")
  case False
  then have "files (exec a ex) = files ex" by (intro files_exec_not_output) blast
  then show ?thesis by (simp add: file_text_def)
next
  case True
  then obtain n l where a: "a = EmitOutput n l" by blast
  have o: "open_append (dirs (exec a ex)) f = Some r" using assms(1) by simp
  have "map_of (files (exec a ex)) r = map_of (files ex) r"
    using assms(2) unfolding a
    by (auto simp: files_emit_output update_conv' split: option.splits)
  then show ?thesis unfolding file_text_open[OF o] file_text_open[OF assms(1)] by simp
qed

lemma output_lines_step_not_output:
  "\<forall>l. a \<noteq> EmitOutput n l \<Longrightarrow> output_lines (step n a st) = output_lines st"
  by (cases a) auto

lemma file_text_emit_output:
  assumes "map_of (states ex) n = Some st" and "log_file st = Some f"
    and "open_append (dirs ex) f = Some r"
  shows "file_text (exec (EmitOutput n l) ex) f = file_text ex f @ l @ [CHR 0x0A]"
proof -
  have o: "open_append (dirs (exec (EmitOutput n l) ex)) f = Some r" using assms(3) by simp
  show ?thesis
    unfolding file_text_open[OF o] file_text_open[OF assms(3)]
    using assms by (simp add: files_emit_output update_conv' split: option.splits)
qed

lemma logs_match_exec:
  assumes "logs_match ex"
  shows "logs_match (exec a ex)"
proof -
  have inj: "\<And>n m st st' f f'. n \<noteq> m \<Longrightarrow> map_of (states ex) n = Some st \<Longrightarrow>
               map_of (states ex) m = Some st' \<Longrightarrow> log_file st = Some f \<Longrightarrow>
               log_file st' = Some f' \<Longrightarrow> open_append (dirs ex) f \<noteq> open_append (dirs ex) f'"
    and opens: "\<And>n st f. map_of (states ex) n = Some st \<Longrightarrow> log_file st = Some f \<Longrightarrow>
               open_append (dirs ex) f \<noteq> None"
    and same: "\<And>n st f. map_of (states ex) n = Some st \<Longrightarrow> log_file st = Some f \<Longrightarrow>
               file_text ex f = log_text (output_lines st)"
    using assms unfolding logs_match_def by blast+
  have 2: "\<forall>n m st st' f f'. n \<noteq> m \<and> map_of (states (exec a ex)) n = Some st
             \<and> map_of (states (exec a ex)) m = Some st' \<and> log_file st = Some f
             \<and> log_file st' = Some f'
             \<longrightarrow> open_append (dirs (exec a ex)) f \<noteq> open_append (dirs (exec a ex)) f'"
    using inj by (auto simp: map_of_states_exec)
  have 1: "\<forall>n st f. map_of (states (exec a ex)) n = Some st \<and> log_file st = Some f
             \<longrightarrow> open_append (dirs (exec a ex)) f \<noteq> None
                 \<and> file_text (exec a ex) f = log_text (output_lines st)"
  proof (intro allI impI)
    fix n st f
    assume h: "map_of (states (exec a ex)) n = Some st \<and> log_file st = Some f"
    then obtain st0 where st0: "map_of (states ex) n = Some st0" "st = step n a st0"
      by (auto simp: map_of_states_exec)
    have lf: "log_file st0 = Some f" using h st0 by simp
    obtain r where r: "open_append (dirs ex) f = Some r" using opens[OF st0(1) lf] by auto
    have "file_text (exec a ex) f = log_text (output_lines st)"
    proof (cases "\<exists>l. a = EmitOutput n l")
      case True
      then obtain l where a: "a = EmitOutput n l" by blast
      show ?thesis
        using file_text_emit_output[OF st0(1) lf r, of l] same[OF st0(1) lf] st0(2) a
        by (simp add: log_text_snoc)
    next
      case False
      then have o: "output_lines st = output_lines st0"
        using st0(2) output_lines_step_not_output[of a n st0] by simp
      have "file_text (exec a ex) f = file_text ex f"
      proof (cases "owner a = n")
        case True
        then have "\<forall>m l. a \<noteq> EmitOutput m l" using False by (cases a) auto
        then have "files (exec a ex) = files ex" by (rule files_exec_not_output)
        then show ?thesis by (simp add: file_text_def)
      next
        case False
        show ?thesis
        proof (rule file_text_exec_other[OF r], intro allI impI)
          fix st' f' assume "map_of (states ex) (owner a) = Some st' \<and> log_file st' = Some f'"
          then show "open_append (dirs ex) f' \<noteq> Some r"
            using inj[of "owner a" n st' st0 f' f] st0(1) lf r False by auto
        qed
      qed
      then show ?thesis using same[OF st0(1) lf] o by simp
    qed
    then show "open_append (dirs (exec a ex)) f \<noteq> None
                 \<and> file_text (exec a ex) f = log_text (output_lines st)"
      using r by simp
  qed
  show ?thesis unfolding logs_match_def using 1 2 by blast
qed

lemma logs_match_fold: "logs_match ex \<Longrightarrow> logs_match (fold exec as ex)"
  by (induction as arbitrary: ex) (simp_all add: logs_match_exec)

lemma map_of_fold_init_state_named:
  "map_of (states (fold init_state ns ex)) n = Some st \<Longrightarrow>
     map_of (states ex) n = Some st \<or>
     (\<exists>node\<in>set ns. name node = n \<and> st = fresh_state (x_log_dir ex) node)"
proof (induction ns arbitrary: ex)
  case Nil
  then show ?case by simp
next
  case (Cons a ns)
  have x: "x_log_dir (init_state a ex) = x_log_dir ex" by (simp add: init_state_def Let_def)
  from Cons.IH[OF Cons.prems[simplified]] show ?case
    by (auto simp: x init_state_fresh update_conv' split: if_splits)
qed

lemma config_yaml_not_log: "''config.yaml'' \<noteq> n @ ''.log''"
proof
  assume "''config.yaml'' = n @ ''.log''"
  then have "last ''config.yaml'' = last (n @ ''.log'')" by simp
  then show False by simp
qed

lemma files_setup_logging_log:
  assumes "map_of fs (log_dir cfg @ [ts, n @ ''.log'']) = None"
  shows "map_of (files (setup_logging ts (Executor_init cfg out st lg ds fs)))
           (log_dir cfg @ [ts, n @ ''.log'']) = None"
  using assms config_yaml_not_log[of n]
  by (auto simp: setup_logging_def Let_def update_conv' split: option.splits)

text \<open>A name without a slash is one component of a path.\<close>

lemma split_slash_plain: "CHR ''/'' \<notin> set s \<Longrightarrow> split_slash cur s = [cur @ s]"
  by (induction s arbitrary: cur) auto

lemma path_join_log:
  assumes "CHR ''/'' \<notin> set n"
  shows "path_join d (n @ ''.log'') = d @ [n @ ''.log'']"
proof -
  have s: "CHR ''/'' \<notin> set (n @ ''.log'')" using assms by simp
  have d: "n @ ''.log'' \<noteq> ''.''"
  proof
    assume "n @ ''.log'' = ''.''"
    then have "length (n @ ''.log'') = length ''.''" by simp
    then show False by simp
  qed
  have p: "path_parts (n @ ''.log'') = [n @ ''.log'']"
    using d by (simp add: path_parts_def split_slash_plain[OF s])
  have h: "hd (n @ ''.log'') \<noteq> CHR ''/''" using assms by (cases n) auto
  show ?thesis
    using p h by (cases "n @ ''.log''") (simp_all add: path_join_def)
qed

lemma not_dotdot_log: "n @ ''.log'' \<noteq> ''..''"
proof
  assume "n @ ''.log'' = ''..''"
  then have "last (n @ ''.log'') = last ''..''" by simp
  then show False by simp
qed

text \<open>A path without \<open>..\<close> whose directories exist names the place it spells.\<close>

lemma walk_plain:
  "''..'' \<notin> set cs \<Longrightarrow> \<forall>k<length cs. cur @ take k cs = [] \<or> cur @ take k cs \<in> ds \<Longrightarrow>
     walk ds cur cs = Some (cur @ cs)"
proof (induction cs arbitrary: cur)
  case Nil
  then show ?case by simp
next
  case (Cons c cs)
  have 0: "cur = [] \<or> cur \<in> ds" using Cons.prems(2)[rule_format, of 0] by simp
  have n: "\<forall>k<length cs. (cur @ [c]) @ take k cs = [] \<or> (cur @ [c]) @ take k cs \<in> ds"
  proof (intro allI impI)
    fix k assume "k < length cs"
    then have "Suc k < length (c # cs)" by simp
    from Cons.prems(2)[rule_format, OF this]
    show "(cur @ [c]) @ take k cs = [] \<or> (cur @ [c]) @ take k cs \<in> ds" by simp
  qed
  have "walk ds (cur @ [c]) cs = Some ((cur @ [c]) @ cs)"
    by (rule Cons.IH) (use Cons.prems(1) n in auto)
  then show ?case using 0 Cons.prems(1) by auto
qed

lemma take_mkdir_parents: "0 < k \<Longrightarrow> k \<le> length p \<Longrightarrow> take k p \<in> mkdir_parents p ds"
proof -
  assume "0 < k" "k \<le> length p"
  then have "k \<in> set [1..<Suc (length p)]" by auto
  then have "take k p \<in> (\<lambda>k. take k p) ` set [1..<Suc (length p)]" by (rule imageI)
  then show ?thesis by (simp add: mkdir_parents_def)
qed

lemma longer_not_mkdir_parents: "p @ [c] \<notin> ds \<Longrightarrow> p @ [c] \<notin> mkdir_parents p ds"
proof
  assume n: "p @ [c] \<notin> ds" and "p @ [c] \<in> mkdir_parents p ds"
  then obtain k where "p @ [c] = take k p" by (auto simp: mkdir_parents_def)
  then have "length (p @ [c]) = length (take k p)" by simp
  then show False by simp
qed

lemma open_append_log:
  assumes "''..'' \<notin> set d" and "d @ [c] \<notin> ds" and "c \<noteq> ''..''"
  shows "open_append (mkdir_parents d ds) (d @ [c]) = Some (d @ [c])"
proof -
  have p: "\<forall>k<length (d @ [c]). [] @ take k (d @ [c]) = [] \<or>
             [] @ take k (d @ [c]) \<in> mkdir_parents d ds"
  proof (intro allI impI)
    fix k assume k: "k < length (d @ [c])"
    show "[] @ take k (d @ [c]) = [] \<or> [] @ take k (d @ [c]) \<in> mkdir_parents d ds"
    proof (cases k)
      case 0
      then show ?thesis by simp
    next
      case (Suc j)
      then have "take k (d @ [c]) = take k d" using k by simp
      moreover have "take k d \<in> mkdir_parents d ds"
        by (rule take_mkdir_parents) (use k Suc in auto)
      ultimately show ?thesis by simp
    qed
  qed
  have "walk (mkdir_parents d ds) [] (d @ [c]) = Some ([] @ (d @ [c]))"
    by (rule walk_plain[OF _ p]) (use assms in auto)
  then show ?thesis
    using longer_not_mkdir_parents[OF assms(2)] by (simp add: open_append_def)
qed

lemma logs_match_initialised:
  assumes "\<forall>node\<in>set (nodes cfg). CHR ''/'' \<notin> set (name node)"
    and "\<forall>node\<in>set (nodes cfg). map_of fs (log_dir cfg @ [ts, name node @ ''.log'']) = None
           \<and> log_dir cfg @ [ts, name node @ ''.log''] \<notin> ds"
    and "''..'' \<notin> set (log_dir cfg)" and "ts \<noteq> ''..''"
  shows "logs_match (initialised ts (Executor_init cfg out st lg ds fs))"
proof -
  let ?ex = "Executor_init cfg out st lg ds fs"
  let ?s = "setup_logging ts ?ex"
  let ?d = "log_dir cfg @ [ts]"
  have st: "\<And>n s. map_of (states (initialised ts ?ex)) n = Some s \<Longrightarrow>
              \<exists>node\<in>set (nodes cfg). name node = n \<and> s = fresh_state (x_log_dir ?s) node"
    unfolding initialised_def by (auto dest!: map_of_fold_init_state_named)
  have lf: "\<And>node f. node \<in> set (nodes cfg) \<Longrightarrow>
              log_file (fresh_state (x_log_dir ?s) node) = Some f \<Longrightarrow>
              f = ?d @ [name node @ ''.log''] \<and> dirs ?s = mkdir_parents ?d ds"
  proof -
    fix node f
    assume node: "node \<in> set (nodes cfg)"
      and f: "log_file (fresh_state (x_log_dir ?s) node) = Some f"
    have on: "lg \<and> \<not> list_all no_logs (nodes cfg)"
      using f by (auto simp: fresh_state_def x_log_dir_setup_logging split: option.splits if_splits)
    have "f = path_join ?d (name node @ ''.log'')"
      using f by (auto simp: fresh_state_def x_log_dir_setup_logging split: option.splits if_splits)
    moreover have "path_join ?d (name node @ ''.log'') = ?d @ [name node @ ''.log'']"
      by (rule path_join_log) (use assms(1) node in auto)
    moreover have "dirs ?s = mkdir_parents ?d ds" using on by (simp add: dirs_setup_logging)
    ultimately show "f = ?d @ [name node @ ''.log''] \<and> dirs ?s = mkdir_parents ?d ds" by simp
  qed
  have op: "\<And>node. node \<in> set (nodes cfg) \<Longrightarrow>
              open_append (mkdir_parents ?d ds) (?d @ [name node @ ''.log''])
                = Some (?d @ [name node @ ''.log''])"
  proof -
    fix node assume node: "node \<in> set (nodes cfg)"
    show "open_append (mkdir_parents ?d ds) (?d @ [name node @ ''.log''])
            = Some (?d @ [name node @ ''.log''])"
      by (rule open_append_log) (use assms node not_dotdot_log in auto)
  qed
  have di: "dirs (initialised ts ?ex) = dirs ?s" by (simp add: initialised_def)
  have fi: "files (initialised ts ?ex) = files ?s" by (simp add: initialised_def)
  have 1: "\<forall>n s f. map_of (states (initialised ts ?ex)) n = Some s \<and> log_file s = Some f
             \<longrightarrow> open_append (dirs (initialised ts ?ex)) f \<noteq> None
                 \<and> file_text (initialised ts ?ex) f = log_text (output_lines s)"
  proof (intro allI impI)
    fix n s f assume h: "map_of (states (initialised ts ?ex)) n = Some s \<and> log_file s = Some f"
    then obtain node where node: "node \<in> set (nodes cfg)" "name node = n"
      "s = fresh_state (x_log_dir ?s) node" using st by blast
    have "log_file (fresh_state (x_log_dir ?s) node) = Some f" using h node(3) by simp
    from lf[OF node(1) this] have f: "f = ?d @ [name node @ ''.log'']"
      and d: "dirs ?s = mkdir_parents ?d ds" by simp_all
    have o: "open_append (dirs (initialised ts ?ex)) f = Some f"
      unfolding di d f by (rule op[OF node(1)])
    have "map_of fs (log_dir cfg @ [ts, name node @ ''.log'']) = None" using assms(2) node(1) by simp
    then have "map_of (files ?s) (log_dir cfg @ [ts, name node @ ''.log'']) = None"
      by (rule files_setup_logging_log)
    then have "map_of (files (initialised ts ?ex)) f = None" unfolding fi f by simp
    then have "file_text (initialised ts ?ex) f = []" unfolding file_text_open[OF o] by simp
    then show "open_append (dirs (initialised ts ?ex)) f \<noteq> None
                 \<and> file_text (initialised ts ?ex) f = log_text (output_lines s)"
      using o node(3) by (simp add: fresh_state_def log_text_def)
  qed
  have 2: "\<forall>n m s s' f f'. n \<noteq> m \<and> map_of (states (initialised ts ?ex)) n = Some s
             \<and> map_of (states (initialised ts ?ex)) m = Some s' \<and> log_file s = Some f
             \<and> log_file s' = Some f'
             \<longrightarrow> open_append (dirs (initialised ts ?ex)) f \<noteq> open_append (dirs (initialised ts ?ex)) f'"
  proof (intro allI impI)
    fix n m s s' f f'
    assume h: "n \<noteq> m \<and> map_of (states (initialised ts ?ex)) n = Some s
             \<and> map_of (states (initialised ts ?ex)) m = Some s' \<and> log_file s = Some f
             \<and> log_file s' = Some f'"
    obtain node where node: "node \<in> set (nodes cfg)" "name node = n"
      "s = fresh_state (x_log_dir ?s) node" using st h by blast
    obtain node' where node': "node' \<in> set (nodes cfg)" "name node' = m"
      "s' = fresh_state (x_log_dir ?s) node'" using st h by blast
    have "log_file (fresh_state (x_log_dir ?s) node) = Some f" using h node(3) by simp
    from lf[OF node(1) this] have a: "f = ?d @ [n @ ''.log'']"
      and d: "dirs ?s = mkdir_parents ?d ds" using node(2) by simp_all
    have "log_file (fresh_state (x_log_dir ?s) node') = Some f'" using h node'(3) by simp
    from lf[OF node'(1) this] have b: "f' = ?d @ [m @ ''.log'']" using node'(2) by simp
    have "open_append (dirs (initialised ts ?ex)) f = Some f"
      unfolding di d a using op[OF node(1)] node(2) by simp
    moreover have "open_append (dirs (initialised ts ?ex)) f' = Some f'"
      unfolding di d b using op[OF node'(1)] node'(2) by simp
    moreover have "f \<noteq> f'" using a b h by simp
    ultimately show "open_append (dirs (initialised ts ?ex)) f
                       \<noteq> open_append (dirs (initialised ts ?ex)) f'" by simp
  qed
  show ?thesis unfolding logs_match_def using 1 2 by blast
qed

lemma logs_match_run_prefix:
  assumes "\<forall>node\<in>set (nodes cfg). CHR ''/'' \<notin> set (name node)"
    and "\<forall>node\<in>set (nodes cfg). map_of fs (log_dir cfg @ [ts, name node @ ''.log'']) = None
           \<and> log_dir cfg @ [ts, name node @ ''.log''] \<notin> ds"
    and "''..'' \<notin> set (log_dir cfg)" and "ts \<noteq> ''..''"
  shows "logs_match (run_prefix k ts remote schedule (Executor_init cfg out st lg ds fs))"
  unfolding run_prefix_def by (rule logs_match_fold, rule logs_match_initialised[OF assms])

lemma run_all_run_prefix:
  "run_all ts remote schedule ex = run_prefix (length (steps_of_run ts remote schedule ex)) ts remote schedule ex"
  by (simp add: run_all_def run_prefix_def)

subsection \<open>Calls and what they see\<close>

lemma seen_append: "seen n (xs @ ys) = seen n xs @ seen n ys"
  by (simp add: seen_def)

text \<open>
  Whether the log writes of a node succeed does not change during a run, and
  \<open>_emit_output\<close> raises exactly when they do not.
\<close>

lemma log_writable_exec [simp]: "log_writable (exec a ex) n = log_writable ex n"
  by (cases "map_of (states ex) n")
     (simp_all add: log_writable_def map_of_states_exec split: option.splits)

lemma log_writable_fold [simp]: "log_writable (fold exec as ex) n = log_writable ex n"
  by (induction as arbitrary: ex) simp_all

lemma emit_output_raises:
  "snd (emit_output n l ex) = (if log_writable ex n then None else Some (OSError log_error))"
  by (auto simp: emit_output_def log_writable_def append_file_def Let_def
      split: option.splits sum.splits)

lemma seen_exec:
  assumes "map_of (states ex) n = Some s"
  shows "seen n (sink (exec a ex)) =
     seen n (sink ex)
       @ map (\<lambda>p. (fst p, Some (snd p)))
           (new_call n (log_writable ex n) (on_output ex) (on_status ex) a (step n a s))"
  using assms
  by (cases a)
     (auto simp: emit_status_def emit_output_def call_on_output_def append_file_def assign_def
       Let_def seen_def snapshot_def log_writable_def update_conv'
       split: option.splits sum.splits)

lemma seen_fold:
  "map_of (states ex) n = Some s \<Longrightarrow>
     seen n (sink (fold exec as ex)) =
       seen n (sink ex)
         @ map (\<lambda>p. (fst p, Some (snd p)))
             (local_calls n (log_writable ex n) (on_output ex) (on_status ex) as s)"
proof (induction as arbitrary: ex s)
  case Nil
  then show ?case by simp
next
  case (Cons a as)
  have n: "map_of (states (exec a ex)) n = Some (step n a s)"
    using Cons.prems by (simp add: map_of_states_exec)
  show ?case
    using Cons.IH[OF n] seen_exec[OF Cons.prems, of a] by simp
qed

lemma new_call_other: "owner a \<noteq> n \<Longrightarrow> new_call n w out st a s = []"
  by (cases a) auto

lemma local_calls_filter:
  "local_calls n w out st as s = local_calls n w out st (filter (\<lambda>a. owner a = n) as) s"
  by (induction as arbitrary: s) (simp_all add: new_call_other step_other)

lemma seen_run_all:
  assumes "distinct (map name (nodes cfg))" and "i < length (nodes cfg)"
  shows "seen (name (nodes cfg ! i)) (sink (run_all ts remote schedule (Executor_init cfg out st lg ds fs))) =
     map (\<lambda>p. (fst p, Some (snd p)))
       (local_calls (name (nodes cfg ! i))
          (log_writable (initialised ts (Executor_init cfg out st lg ds fs)) (name (nodes cfg ! i)))
          out st (fst (driver ts remote (Executor_init cfg out st lg ds fs) i))
          (fresh_state (x_log_dir (setup_logging ts (Executor_init cfg out st lg ds fs))) (nodes cfg ! i)))"
proof -
  let ?ex = "Executor_init cfg out st lg ds fs"
  have d: "distinct (map name (nodes (x_config ?ex)))" and l: "i < length (nodes (x_config ?ex))"
    using assms by simp_all
  have m: "map_of (states (initialised ts ?ex)) (name (nodes cfg ! i)) =
           Some (fresh_state (x_log_dir (setup_logging ts ?ex)) (nodes cfg ! i))"
    using map_of_initialised[OF d l, of ts] by simp
  have f: "filter (\<lambda>a. owner a = name (nodes cfg ! i)) (steps_of_run ts remote schedule ?ex) =
           fst (driver ts remote ?ex i)"
    using steps_of_node[OF d l, of ts remote schedule] by simp
  show ?thesis
    unfolding run_all_def seen_fold[OF m]
    by (subst local_calls_filter) (simp add: f seen_def)
qed

subsection \<open>\<open>FAILED\<close> comes before the error message\<close>

lemma error_message_step_not_error:
  "\<forall>m e. a \<noteq> SetError m e \<Longrightarrow> error_message (step n a s) = error_message s"
  by (cases a) auto

lemma failed_then_message_calls:
  "failed_then_message b as \<Longrightarrow> (\<not> b \<Longrightarrow> error_message s = []) \<Longrightarrow>
     \<forall>p\<in>set (local_calls n w out st as s). fst p = StatusEvent n FAILED \<longrightarrow> error_message (snd p) = []"
proof (induction as arbitrary: b s)
  case Nil
  then show ?case by simp
next
  case (Cons a as)
  define b' where "b' = (b \<or> (\<exists>m e. a = SetError m e))"
  have rest: "failed_then_message b' as"
    using Cons.prems(1) unfolding b'_def by (cases a) auto
  have empty: "\<not> b' \<Longrightarrow> error_message (step n a s) = []"
    using Cons.prems(2) unfolding b'_def by (cases a) auto
  have later: "\<forall>p\<in>set (local_calls n w out st as (step n a s)).
                 fst p = StatusEvent n FAILED \<longrightarrow> error_message (snd p) = []"
    by (rule Cons.IH[OF rest empty])
  have now: "\<forall>p\<in>set (new_call n w out st a (step n a s)).
               fst p = StatusEvent n FAILED \<longrightarrow> error_message (snd p) = []"
    using Cons.prems by (cases a) auto
  show ?case using now later by auto
qed

lemma failed_then_message_append:
  "failed_then_message b (xs @ ys) =
     (failed_then_message b xs \<and> failed_then_message (b \<or> errors xs \<noteq> []) ys)"
  by (induction b xs rule: failed_then_message.induct) simp_all

lemma failed_then_message_no_failed:
  "FAILED \<notin> set (statuses xs) \<Longrightarrow> failed_then_message b xs"
  by (induction b xs rule: failed_then_message.induct) auto

lemma failed_then_message_run_command: "failed_then_message b (fst (run_command n c p))"
  by (rule failed_then_message_no_failed) (simp add: statuses_run_command)

lemma errors_run_commands:
  "snd (run_commands node conn i cmds) \<noteq> Returned \<Longrightarrow> errors (fst (run_commands node conn i cmds)) = []"
proof (induction cmds arbitrary: i)
  case Nil
  then show ?case by simp
next
  case (Cons cmd cmds)
  then show ?case
    by (auto simp: Let_def errors_append errors_run_command split: sum.splits if_splits)
qed

lemma errors_run_commands_returned:
  "snd (run_commands node conn i cmds) = Returned \<Longrightarrow>
     \<exists>c. errors (fst (run_commands node conn i cmds)) = [''Command failed: '' @ c]"
proof (induction cmds arbitrary: i)
  case Nil
  then show ?case by simp
next
  case (Cons cmd cmds)
  then show ?case
    by (auto simp: Let_def errors_append errors_run_command split: sum.splits if_splits)
qed

lemma failed_then_message_run_commands:
  "failed_then_message False (fst (run_commands node conn i cmds))"
proof (induction cmds arbitrary: i)
  case Nil
  then show ?case by simp
next
  case (Cons cmd cmds)
  then show ?case
    by (auto simp: Let_def failed_then_message_append failed_then_message_run_command
        errors_run_command split: sum.splits)
qed

lemma failed_then_message_handle_exn: "failed_then_message False (fst (handle_exn n e))"
  by (cases e) simp_all

lemma failed_then_message_run_node_writable:
  "failed_then_message False (fst (run_node True node r))"
proof (cases r)
  case (Refused e)
  then show ?thesis
    by (simp add: run_node_def failed_then_message_append failed_then_message_handle_exn
        connecting_def)
next
  case (Session conn)
  have c: "failed_then_message False (connecting node)" "errors (connecting node) = []"
    by (simp_all add: connecting_def)
  have d: "failed_then_message False (connected node)" "errors (connected node) = []"
    by (simp_all add: connected_def split: option.splits)
  have k: "failed_then_message b (completed node)" for b by (simp add: completed_def)
  show ?thesis
  proof (cases "snd (run_commands node conn 0 (commands node))")
    case Completed
    then show ?thesis using Session c d k
      by (simp add: run_node_def failed_then_message_append failed_then_message_run_commands)
  next
    case Returned
    then show ?thesis using Session c d
      by (simp add: run_node_def failed_then_message_append failed_then_message_run_commands)
  next
    case (Raised e)
    then have "errors (fst (run_commands node conn 0 (commands node))) = []"
      by (intro errors_run_commands) simp
    then show ?thesis using Session c d Raised
      by (simp add: run_node_def failed_then_message_append failed_then_message_run_commands
          failed_then_message_handle_exn)
  qed
qed

lemma errors_run_node_failed_writable:
  "FAILED \<in> set (statuses (fst (run_node True node r))) \<Longrightarrow>
     last ([] # errors (fst (run_node True node r))) \<noteq> []"
proof (cases r)
  case (Refused e)
  assume "FAILED \<in> set (statuses (fst (run_node True node r)))"
  then show ?thesis using Refused
    by (cases e) (simp_all add: run_node_def connecting_def errors_append)
next
  case (Session conn)
  assume f: "FAILED \<in> set (statuses (fst (run_node True node r)))"
  show ?thesis
  proof (cases "snd (run_commands node conn 0 (commands node))")
    case Completed
    then show ?thesis using f Session by (simp add: statuses_run_node)
  next
    case Returned
    then obtain c where "errors (fst (run_commands node conn 0 (commands node))) = [''Command failed: '' @ c]"
      using errors_run_commands_returned by blast
    then show ?thesis using Session Returned by (simp add: run_node_def errors_append)
  next
    case (Raised e)
    then have "errors (fst (run_commands node conn 0 (commands node))) = []"
      by (intro errors_run_commands) simp
    moreover have "\<forall>m. e \<noteq> OtherError m"
      using f Session Raised by (auto simp: statuses_run_node)
    ultimately show ?thesis using Session Raised
      by (cases e) (simp_all add: run_node_def errors_append)
  qed
qed

lemma failed_then_message_run_node: "failed_then_message False (fst (run_node w node r))"
proof (cases w)
  case True
  then show ?thesis by (simp add: failed_then_message_run_node_writable)
next
  case False
  then show ?thesis by (simp add: run_node_def connecting_def)
qed

lemma errors_run_node_failed:
  "FAILED \<in> set (statuses (fst (run_node w node r))) \<Longrightarrow>
     last ([] # errors (fst (run_node w node r))) \<noteq> []"
proof (cases w)
  case True
  assume "FAILED \<in> set (statuses (fst (run_node w node r)))"
  then show ?thesis using True errors_run_node_failed_writable[of node r] by simp
next
  case False
  assume "FAILED \<in> set (statuses (fst (run_node w node r)))"
  then show ?thesis using False by (simp add: run_node_def connecting_def)
qed

subsection \<open>Log files that can be opened\<close>

lemma log_writable_no_log_files: "no_log_files ex \<Longrightarrow> log_writable ex n"
  by (auto simp: no_log_files_def log_writable_def split: option.splits)

lemma log_writable_initialised_off:
  "\<not> lg \<or> list_all no_logs (nodes cfg) \<Longrightarrow>
     log_writable (initialised ts (Executor_init cfg out st lg ds fs)) n"
  by (rule log_writable_no_log_files, rule no_log_files_initialised)

text \<open>
  The log file of a node whose name has no slash can be opened, when the log directory has
  no \<open>..\<close> and no directory is where the file goes.
\<close>

lemma log_writable_initialised:
  assumes "distinct (map name (nodes cfg))" and "i < length (nodes cfg)"
    and "CHR ''/'' \<notin> set (name (nodes cfg ! i))"
    and "log_dir cfg @ [ts, name (nodes cfg ! i) @ ''.log''] \<notin> ds"
    and "''..'' \<notin> set (log_dir cfg)" and "ts \<noteq> ''..''"
  shows "log_writable (initialised ts (Executor_init cfg out st lg ds fs)) (name (nodes cfg ! i))"
proof (cases "lg \<and> \<not> list_all no_logs (nodes cfg)")
  case False
  then show ?thesis by (intro log_writable_initialised_off) auto
next
  case True
  let ?ex = "Executor_init cfg out st lg ds fs"
  let ?d = "log_dir cfg @ [ts]"
  let ?n = "name (nodes cfg ! i)"
  have d: "distinct (map name (nodes (x_config ?ex)))" and l: "i < length (nodes (x_config ?ex))"
    using assms by simp_all
  have m: "map_of (states (initialised ts ?ex)) ?n =
           Some (fresh_state (x_log_dir (setup_logging ts ?ex)) (nodes cfg ! i))"
    using map_of_initialised[OF d l, of ts] by simp
  have x: "x_log_dir (setup_logging ts ?ex) = Some ?d"
    using True by (simp add: x_log_dir_setup_logging)
  have di: "dirs (initialised ts ?ex) = mkdir_parents ?d ds"
    using True by (simp add: initialised_def dirs_setup_logging)
  have o: "open_append (mkdir_parents ?d ds) (?d @ [?n @ ''.log'']) = Some (?d @ [?n @ ''.log''])"
    by (rule open_append_log) (use assms not_dotdot_log in auto)
  show ?thesis
    unfolding log_writable_def m
    using o by (simp add: fresh_state_def x di path_join_log[OF assms(3)])
qed

lemma driver_writable:
  "log_writable (initialised ts ex) (name (nodes (x_config ex) ! i)) \<Longrightarrow>
     driver ts remote ex i = run_node True (nodes (x_config ex) ! i) (remote i)"
  by (simp add: driver_def)

lemma driver_not_writable:
  "\<not> log_writable (initialised ts ex) (name (nodes (x_config ex) ! i)) \<Longrightarrow>
     driver ts remote ex i = (connecting (nodes (x_config ex) ! i), Some (OSError log_error))"
  by (simp add: driver_def run_node_def)

lemma mkdir_parents_two: "mkdir_parents [a, b] ds = insert [a] (insert [a, b] ds)"
proof -
  have "[1..<Suc (length [a, b])] = [1, 2]" by (simp add: upt_rec)
  then show ?thesis by (simp add: mkdir_parents_def)
qed

subsection \<open>The first command that does not succeed\<close>

lemma not_succeeds_cases:
  "\<not> succeeds p \<Longrightarrow> fails p \<or> (\<exists>e. raised p = Some (OSError e)) \<or> (\<exists>e. raised p = Some (OtherError e))"
  by (induction p rule: fails.induct) simp_all

lemma snd_run_command_raised:
  "\<not> fails p \<Longrightarrow> raised p = Some e \<Longrightarrow> snd (run_command n c p) = Inl e"
  by (induction n c p rule: run_command.induct) auto

text \<open>The loop with stop-on-error ends at the first command that does not succeed.\<close>

lemma run_commands_stop_any:
  assumes "stop_on_error node" and "k < length cmds"
    and "\<forall>j<k. succeeds (conn (i + j) (actual_cmd (work_dir node) (cmds ! j)))"
    and "\<not> succeeds (conn (i + k) (actual_cmd (work_dir node) (cmds ! k)))"
  shows "created (fst (run_commands node conn i cmds)) =
           map (actual_cmd (work_dir node)) (take (Suc k) cmds) \<and>
         (fails (conn (i + k) (actual_cmd (work_dir node) (cmds ! k))) \<longrightarrow>
            snd (run_commands node conn i cmds) = Returned \<and>
            errors (fst (run_commands node conn i cmds)) = [''Command failed: '' @ cmds ! k]) \<and>
         (\<forall>e. \<not> fails (conn (i + k) (actual_cmd (work_dir node) (cmds ! k))) \<and>
              raised (conn (i + k) (actual_cmd (work_dir node) (cmds ! k))) = Some e \<longrightarrow>
            snd (run_commands node conn i cmds) = Raised e \<and>
            errors (fst (run_commands node conn i cmds)) = [])"
  using assms
proof (induction cmds arbitrary: i k)
  case Nil
  then show ?case by simp
next
  case (Cons cmd cmds)
  show ?case
  proof (cases k)
    case 0
    let ?p = "conn i (actual_cmd (work_dir node) cmd)"
    have n: "\<not> succeeds ?p" using Cons.prems(4) 0 by simp
    show ?thesis
    proof (cases "fails ?p")
      case True
      then show ?thesis using 0 Cons.prems(1)
        by (simp add: Let_def snd_run_command_fails created_append created_run_command
            errors_append errors_run_command)
    next
      case False
      then obtain e where e: "raised ?p = Some e" using not_succeeds_cases[OF n] by auto
      show ?thesis using 0 False e
        by (simp add: Let_def snd_run_command_raised[OF False e] created_append
            created_run_command errors_append errors_run_command)
    qed
  next
    case (Suc k')
    have s0: "succeeds (conn i (actual_cmd (work_dir node) cmd))"
      using Cons.prems(3)[rule_format, of 0] Suc by simp
    have ih: "created (fst (run_commands node conn (Suc i) cmds)) =
           map (actual_cmd (work_dir node)) (take (Suc k') cmds) \<and>
         (fails (conn (Suc i + k') (actual_cmd (work_dir node) (cmds ! k'))) \<longrightarrow>
            snd (run_commands node conn (Suc i) cmds) = Returned \<and>
            errors (fst (run_commands node conn (Suc i) cmds)) = [''Command failed: '' @ cmds ! k']) \<and>
         (\<forall>e. \<not> fails (conn (Suc i + k') (actual_cmd (work_dir node) (cmds ! k'))) \<and>
              raised (conn (Suc i + k') (actual_cmd (work_dir node) (cmds ! k'))) = Some e \<longrightarrow>
            snd (run_commands node conn (Suc i) cmds) = Raised e \<and>
            errors (fst (run_commands node conn (Suc i) cmds)) = [])"
    proof (rule Cons.IH[OF Cons.prems(1)])
      show "k' < length cmds" using Cons.prems(2) Suc by simp
      show "\<forall>j<k'. succeeds (conn (Suc i + j) (actual_cmd (work_dir node) (cmds ! j)))"
      proof (intro allI impI)
        fix j assume "j < k'"
        then have "Suc j < k" using Suc by simp
        from Cons.prems(3)[rule_format, OF this] show
          "succeeds (conn (Suc i + j) (actual_cmd (work_dir node) (cmds ! j)))" by simp
      qed
      show "\<not> succeeds (conn (Suc i + k') (actual_cmd (work_dir node) (cmds ! k')))"
        using Cons.prems(4) Suc by simp
    qed
    show ?thesis using Suc s0 ih
      by (simp add: Let_def snd_run_command_succeeds created_append created_run_command
          errors_append errors_run_command)
  qed
qed

lemma run_node_stop_any:
  assumes "stop_on_error node" and "k < length (commands node)"
    and "\<forall>j<k. succeeds (conn j (actual_cmd (work_dir node) (commands node ! j)))"
    and "\<not> succeeds (conn k (actual_cmd (work_dir node) (commands node ! k)))"
  shows "created (fst (run_node True node (Session conn))) =
           map (actual_cmd (work_dir node)) (take (Suc k) (commands node)) \<and>
         (fails (conn k (actual_cmd (work_dir node) (commands node ! k))) \<longrightarrow>
            statuses (fst (run_node True node (Session conn))) = [CONNECTING, RUNNING, FAILED] \<and>
            errors (fst (run_node True node (Session conn))) =
              [''Command failed: '' @ commands node ! k]) \<and>
         (\<forall>e. raised (conn k (actual_cmd (work_dir node) (commands node ! k))) = Some (OSError e) \<longrightarrow>
            statuses (fst (run_node True node (Session conn))) = [CONNECTING, RUNNING, FAILED] \<and>
            errors (fst (run_node True node (Session conn))) = [''Connection error: '' @ e]) \<and>
         (\<forall>e. raised (conn k (actual_cmd (work_dir node) (commands node ! k))) = Some (OtherError e) \<longrightarrow>
            statuses (fst (run_node True node (Session conn))) = [CONNECTING, RUNNING] \<and>
            errors (fst (run_node True node (Session conn))) = [])"
proof -
  let ?p = "conn k (actual_cmd (work_dir node) (commands node ! k))"
  have f: "raised ?p = Some (OSError e) \<Longrightarrow> \<not> fails ?p" for e
    by (cases ?p rule: fails.cases) simp_all
  have g: "raised ?p = Some (OtherError e) \<Longrightarrow> \<not> fails ?p" for e
    by (cases ?p rule: fails.cases) simp_all
  have r: "created (fst (run_commands node conn 0 (commands node))) =
           map (actual_cmd (work_dir node)) (take (Suc k) (commands node)) \<and>
         (fails (conn (0 + k) (actual_cmd (work_dir node) (commands node ! k))) \<longrightarrow>
            snd (run_commands node conn 0 (commands node)) = Returned \<and>
            errors (fst (run_commands node conn 0 (commands node))) =
              [''Command failed: '' @ commands node ! k]) \<and>
         (\<forall>e. \<not> fails (conn (0 + k) (actual_cmd (work_dir node) (commands node ! k))) \<and>
              raised (conn (0 + k) (actual_cmd (work_dir node) (commands node ! k))) = Some e \<longrightarrow>
            snd (run_commands node conn 0 (commands node)) = Raised e \<and>
            errors (fst (run_commands node conn 0 (commands node))) = [])"
    by (rule run_commands_stop_any) (use assms in simp_all)
  have h: "created (fst (handle_exn n e)) = []" for n e by (cases e) simp_all
  have c: "created (fst (run_node True node (Session conn))) =
             created (fst (run_commands node conn 0 (commands node)))"
    by (simp add: run_node_def created_append h split: loop_end.splits)
  have 1: "created (fst (run_node True node (Session conn))) =
           map (actual_cmd (work_dir node)) (take (Suc k) (commands node))"
    using r c by simp
  have 2: "fails ?p \<longrightarrow>
            statuses (fst (run_node True node (Session conn))) = [CONNECTING, RUNNING, FAILED] \<and>
            errors (fst (run_node True node (Session conn))) =
              [''Command failed: '' @ commands node ! k]"
    using r by (simp add: statuses_run_node) (simp add: run_node_def errors_append)
  have 3: "\<forall>e. raised ?p = Some (OSError e) \<longrightarrow>
            statuses (fst (run_node True node (Session conn))) = [CONNECTING, RUNNING, FAILED] \<and>
            errors (fst (run_node True node (Session conn))) = [''Connection error: '' @ e]"
  proof (intro allI impI)
    fix e assume e: "raised ?p = Some (OSError e)"
    have "snd (run_commands node conn 0 (commands node)) = Raised (OSError e) \<and>
          errors (fst (run_commands node conn 0 (commands node))) = []"
      using r f[OF e] e by simp
    then show "statuses (fst (run_node True node (Session conn))) = [CONNECTING, RUNNING, FAILED] \<and>
            errors (fst (run_node True node (Session conn))) = [''Connection error: '' @ e]"
      by (simp add: statuses_run_node) (simp add: run_node_def errors_append)
  qed
  have 4: "\<forall>e. raised ?p = Some (OtherError e) \<longrightarrow>
            statuses (fst (run_node True node (Session conn))) = [CONNECTING, RUNNING] \<and>
            errors (fst (run_node True node (Session conn))) = []"
  proof (intro allI impI)
    fix e assume e: "raised ?p = Some (OtherError e)"
    have "snd (run_commands node conn 0 (commands node)) = Raised (OtherError e) \<and>
          errors (fst (run_commands node conn 0 (commands node))) = []"
      using r g[OF e] e by simp
    then show "statuses (fst (run_node True node (Session conn))) = [CONNECTING, RUNNING] \<and>
            errors (fst (run_node True node (Session conn))) = []"
      by (simp add: statuses_run_node) (simp add: run_node_def errors_append)
  qed
  show ?thesis using 1 2 3 4 by blast
qed

text \<open>
  An exception that is not an \<open>asyncssh.Error\<close> ends the loop whatever stop-on-error says,
  when the commands before it let the loop go on.
\<close>

lemma run_commands_raise:
  assumes "k < length cmds"
    and "\<forall>j<k. returns (conn (i + j) (actual_cmd (work_dir node) (cmds ! j))) \<and>
           (stop_on_error node \<longrightarrow> succeeds (conn (i + j) (actual_cmd (work_dir node) (cmds ! j))))"
    and "\<not> fails (conn (i + k) (actual_cmd (work_dir node) (cmds ! k)))"
    and "raised (conn (i + k) (actual_cmd (work_dir node) (cmds ! k))) = Some e"
  shows "created (fst (run_commands node conn i cmds)) =
           map (actual_cmd (work_dir node)) (take (Suc k) cmds) \<and>
         snd (run_commands node conn i cmds) = Raised e \<and>
         errors (fst (run_commands node conn i cmds)) = []"
  using assms
proof (induction cmds arbitrary: i k)
  case Nil
  then show ?case by simp
next
  case (Cons cmd cmds)
  show ?case
  proof (cases k)
    case 0
    let ?p = "conn i (actual_cmd (work_dir node) cmd)"
    have f: "\<not> fails ?p" and e: "raised ?p = Some e" using Cons.prems(3,4) 0 by simp_all
    show ?thesis using 0
      by (simp add: Let_def snd_run_command_raised[OF f e] created_append
          created_run_command errors_append errors_run_command)
  next
    case (Suc k')
    let ?p = "conn i (actual_cmd (work_dir node) cmd)"
    have r0: "returns ?p" and s0: "stop_on_error node \<longrightarrow> succeeds ?p"
      using Cons.prems(2)[rule_format, of 0] Suc by simp_all
    have ih: "created (fst (run_commands node conn (Suc i) cmds)) =
           map (actual_cmd (work_dir node)) (take (Suc k') cmds) \<and>
         snd (run_commands node conn (Suc i) cmds) = Raised e \<and>
         errors (fst (run_commands node conn (Suc i) cmds)) = []"
    proof (rule Cons.IH)
      show "k' < length cmds" using Cons.prems(1) Suc by simp
      show "\<forall>j<k'. returns (conn (Suc i + j) (actual_cmd (work_dir node) (cmds ! j))) \<and>
              (stop_on_error node \<longrightarrow> succeeds (conn (Suc i + j) (actual_cmd (work_dir node) (cmds ! j))))"
      proof (intro allI impI)
        fix j assume "j < k'"
        then have "Suc j < k" using Suc by simp
        from Cons.prems(2)[rule_format, OF this] show
          "returns (conn (Suc i + j) (actual_cmd (work_dir node) (cmds ! j))) \<and>
           (stop_on_error node \<longrightarrow> succeeds (conn (Suc i + j) (actual_cmd (work_dir node) (cmds ! j))))"
          by simp
      qed
      show "\<not> fails (conn (Suc i + k') (actual_cmd (work_dir node) (cmds ! k')))"
        using Cons.prems(3) Suc by simp
      show "raised (conn (Suc i + k') (actual_cmd (work_dir node) (cmds ! k'))) = Some e"
        using Cons.prems(4) Suc by simp
    qed
    have c: "\<not> (\<not> succeeds ?p \<and> stop_on_error node)" using s0 by blast
    show ?thesis using Suc ih
      by (simp add: Let_def snd_run_command_returns[OF r0] c created_append created_run_command
          errors_append errors_run_command)
  qed
qed

lemma run_node_raise_oserror:
  assumes "k < length (commands node)"
    and "\<forall>j<k. returns (conn j (actual_cmd (work_dir node) (commands node ! j))) \<and>
           (stop_on_error node \<longrightarrow> succeeds (conn j (actual_cmd (work_dir node) (commands node ! j))))"
    and "raised (conn k (actual_cmd (work_dir node) (commands node ! k))) = Some (OSError e)"
  shows "created (fst (run_node True node (Session conn))) =
           map (actual_cmd (work_dir node)) (take (Suc k) (commands node)) \<and>
         statuses (fst (run_node True node (Session conn))) = [CONNECTING, RUNNING, FAILED] \<and>
         errors (fst (run_node True node (Session conn))) = [''Connection error: '' @ e]"
proof -
  let ?p = "conn k (actual_cmd (work_dir node) (commands node ! k))"
  have f: "\<not> fails ?p" using assms(3) by (cases ?p rule: fails.cases) simp_all
  have r: "created (fst (run_commands node conn 0 (commands node))) =
           map (actual_cmd (work_dir node)) (take (Suc k) (commands node)) \<and>
         snd (run_commands node conn 0 (commands node)) = Raised (OSError e) \<and>
         errors (fst (run_commands node conn 0 (commands node))) = []"
    by (rule run_commands_raise) (use assms f in simp_all)
  then show ?thesis
    by (simp add: statuses_run_node) (simp add: run_node_def created_append errors_append)
qed

subsection \<open>The example runs\<close>

lemma demo_simps:
  "nodes (demo_config soe) = [demo_node soe]"
  "name (demo_node soe) = ''a''"
  "second_fails_session i = Session second_fails"
  by (simp_all add: demo_config_def demo_node_def second_fails_session_def)

lemma demo_writable:
  "log_writable (initialised ''20240101_000000'' (Executor_init (demo_config soe) out st lg {} fs)) ''a''"
  using log_writable_initialised[of "demo_config soe" 0 "''20240101_000000''" "{}" out st lg fs]
  by (simp add: demo_config_def demo_node_def)

lemma demo_driver:
  "driver ''20240101_000000'' remote (Executor_init (demo_config soe) out st lg {} fs) 0 =
     run_node True (demo_node soe) (remote 0)"
  using driver_writable[of "''20240101_000000''" "Executor_init (demo_config soe) out st lg {} fs" 0 remote]
    demo_writable[of soe out st lg fs]
  by (simp add: demo_simps)

lemma demo_statuses:
  "statuses (fst (run_node True (demo_node soe) (Session second_fails))) =
     (if soe then [CONNECTING, RUNNING, FAILED] else [CONNECTING, RUNNING, SUCCESS])"
  by (simp add: statuses_run_node demo_node_def second_fails_def Let_def)

lemma demo_node_status:
  "node_status (run_all ''20240101_000000'' second_fails_session schedule
      (Executor_init (demo_config soe) out st lg {} fs)) ''a'' = Some (if soe then FAILED else SUCCESS)"
  using status_run_all[of "demo_config soe" 0 "''20240101_000000''" second_fails_session schedule
      out st lg "{}" fs]
  by (cases soe) (simp_all add: node_status_def demo_simps demo_statuses demo_driver)

text \<open>The log file of the node \<open>sub/a\<close> cannot be opened.\<close>

lemma nested_simps:
  "nodes nested_config = [(demo_node True)\<lparr>name := ''sub/a''\<rparr>]"
  "name ((demo_node True)\<lparr>name := ''sub/a''\<rparr>) = ''sub/a''"
  "log_dir nested_config = [''logs'']"
  by (simp_all add: nested_config_def)

lemma nested_log_file:
  "path_join [''logs'', ''20240101_000000''] ''sub/a.log'' = [''logs'', ''20240101_000000'', ''sub'', ''a.log'']"
  by (simp add: path_join_def path_parts_def)

lemma nested_open:
  "open_append {[''logs''], [''logs'', ''20240101_000000'']}
     [''logs'', ''20240101_000000'', ''sub'', ''a.log''] = None"
  by (simp add: open_append_def)

lemma nested_initialised:
  "initialised ''20240101_000000'' (Executor_init nested_config out st True {} fs) =
     \<lparr>x_config = nested_config, on_output = out, on_status = st, enable_logging = True,
      states = [(''sub/a'',
        fresh_state (Some [''logs'', ''20240101_000000'']) ((demo_node True)\<lparr>name := ''sub/a''\<rparr>))],
      x_log_dir = Some [''logs'', ''20240101_000000''],
      dirs = {[''logs''], [''logs'', ''20240101_000000'']}, files = fs, sink = [],
      launched = []\<rparr>"
  by (simp add: initialised_def setup_logging_def Executor_init_def init_state_def fresh_state_def
      nested_config_def demo_node_def mkdir_parents_two Let_def insert_commute)

lemma nested_not_writable:
  "\<not> log_writable (initialised ''20240101_000000'' (Executor_init nested_config out st True {} fs))
       ''sub/a''"
  by (simp add: nested_initialised log_writable_def fresh_state_def demo_node_def nested_log_file
      nested_open)

lemma nested_driver:
  "driver ''20240101_000000'' remote (Executor_init nested_config out st True {} fs) 0 =
     (connecting ((demo_node True)\<lparr>name := ''sub/a''\<rparr>), Some (OSError log_error))"
  using driver_not_writable[of "''20240101_000000''" "Executor_init nested_config out st True {} fs" 0 remote]
    nested_not_writable[of out st fs]
  by (simp add: nested_simps)

lemma nested_steps:
  "steps_of_run ''20240101_000000'' remote [] (Executor_init nested_config out st True {} fs) =
     connecting ((demo_node True)\<lparr>name := ''sub/a''\<rparr>)"
  using nested_not_writable[of out st fs]
  by (simp add: steps_of_run_def drivers_def nested_simps run_node_def)

section \<open>The claims\<close>

text \<open>
  C5. Over an established session, when the remote process ends with an exit status,
  \<open>_run_command\<close> returns, and it returns \<open>True\<close> exactly when the status is 0. The lines
  it emits are the lines read from the streams, followed, exactly when the status is not 0,
  by the one line \<open>Command exited with status <status>\<close>.
\<close>

theorem run_command_exit_status:
  "snd (run_command node_name cmd (Proc ls (Exit exit_status))) = Inr (exit_status = 0) \<and>
   emitted (fst (run_command node_name cmd (Proc ls (Exit exit_status)))) =
     emitted (map (read_stream node_name) ls)
       @ (if exit_status = 0 then [] else [''Command exited with status '' @ str_int exit_status])"
  by (simp add: emitted_append)

text \<open>
  C4, as stated, fails: an exception that is not an \<open>asyncssh.Error\<close> is not caught by
  \<open>_run_command\<close>. When the connection is reset while the first line has been read, the
  \<open>OSError\<close> leaves the function, and no command-error line is emitted.
\<close>

theorem run_command_oserror_propagates:
  "run_command ''a'' ''make''
     (Proc [(False, ''compiling'' @ [CHR 0x0A])] (Raise (OSError ''Connection reset by peer''))) =
     ([CreateProcess ''a'' ''make'', EmitOutput ''a'' ''compiling''],
      Inl (OSError ''Connection reset by peer''))"
  by (simp add: read_stream_def rstrip_nl_def)

text \<open>
  C4 (amended). A fault of class \<open>asyncssh.Error\<close> raised while the command is launched or
  its streams are read is caught in \<open>_run_command\<close>: after the lines read so far the line
  \<open>Command error: <e>\<close> is emitted and the function returns \<open>False\<close>, so that the driver
  applies its stop-on-error policy. A fault of any other class is not caught there: it
  leaves \<open>_run_command\<close> with nothing more emitted.
\<close>

theorem run_command_faults:
  "run_command node_name cmd (Proc ls (Raise (SSHError e))) =
     (CreateProcess node_name cmd # map (read_stream node_name) ls
        @ [EmitOutput node_name (''Command error: '' @ e)], Inr False) \<and>
   run_command node_name cmd (Proc ls (Raise (OSError e))) =
     (CreateProcess node_name cmd # map (read_stream node_name) ls, Inl (OSError e)) \<and>
   run_command node_name cmd (Proc ls (Raise (OtherError e))) =
     (CreateProcess node_name cmd # map (read_stream node_name) ls, Inl (OtherError e))"
  by simp

text \<open>
  C1. In a run over nodes with distinct names, every node starts in \<open>PENDING\<close>, and the
  statuses the status callback receives for it, after \<open>PENDING\<close>, follow the transitions
  of the state machine: the list is empty (no callback), or one of \<open>CONNECTING\<close>;
  \<open>CONNECTING, FAILED\<close>; \<open>CONNECTING, RUNNING\<close>; \<open>CONNECTING, RUNNING, SUCCESS\<close>;
  \<open>CONNECTING, RUNNING, FAILED\<close>. So \<open>CONNECTING\<close> is never skipped and nothing follows
  \<open>SUCCESS\<close> or \<open>FAILED\<close>. This holds for every schedule of the drivers and
  whatever the remote side does.
\<close>

theorem status_sequence_valid:
  assumes "distinct (map name (nodes cfg))" and "i < length (nodes cfg)"
  shows "node_status (initialised ts (Executor_init cfg out st lg ds fs)) (name (nodes cfg ! i))
           = Some PENDING \<and>
         valid_path (PENDING # delivered_statuses (name (nodes cfg ! i))
           (sink (run_all ts remote schedule (Executor_init cfg out st lg ds fs)))) \<and>
         delivered_statuses (name (nodes cfg ! i))
           (sink (run_all ts remote schedule (Executor_init cfg out st lg ds fs)))
           \<in> {[], [CONNECTING], [CONNECTING, FAILED], [CONNECTING, RUNNING],
               [CONNECTING, RUNNING, SUCCESS], [CONNECTING, RUNNING, FAILED]}"
proof -
  let ?ex = "Executor_init cfg out st lg ds fs"
  have d: "distinct (map name (nodes (x_config ?ex)))" and l: "i < length (nodes (x_config ?ex))"
    using assms by simp_all
  have 1: "node_status (initialised ts ?ex) (name (nodes cfg ! i)) = Some PENDING"
    using map_of_initialised[OF d l, of ts] by (simp add: fresh_state_def node_status_def)
  have 2: "delivered_statuses (name (nodes cfg ! i)) (sink (run_all ts remote schedule ?ex)) =
           (if st then statuses (fst (driver ts remote ?ex i)) else [])"
    using delivered_statuses_run_all[OF d l, of ts remote schedule] by simp
  have 3: "valid_path (PENDING # (if st then statuses (fst (driver ts remote ?ex i)) else []))"
    using valid_path_run_node by (simp add: driver_def)
  have 4: "(if st then statuses (fst (driver ts remote ?ex i)) else [])
           \<in> {[], [CONNECTING], [CONNECTING, FAILED], [CONNECTING, RUNNING],
               [CONNECTING, RUNNING, SUCCESS], [CONNECTING, RUNNING, FAILED]}"
    by (simp add: driver_def statuses_run_node
        split: connect_result.splits loop_end.splits exn.splits)
  show ?thesis using 1 3 4 unfolding 2 by simp
qed

theorem status_sequence_valid_witness:
  "distinct (map name (nodes (demo_config True))) \<and> 0 < length (nodes (demo_config True)) \<and>
   node_status (initialised ''20240101_000000'' (Executor_init (demo_config True) True True True {} []))
     ''a'' = Some PENDING \<and>
   valid_path (PENDING # delivered_statuses ''a''
     (sink (run_all ''20240101_000000'' second_fails_session []
        (Executor_init (demo_config True) True True True {} [])))) \<and>
   delivered_statuses ''a''
     (sink (run_all ''20240101_000000'' second_fails_session []
        (Executor_init (demo_config True) True True True {} []))) = [CONNECTING, RUNNING, FAILED]"
proof -
  have d: "distinct (map name (nodes (demo_config True)))" by (simp add: demo_simps)
  have l: "0 < length (nodes (demo_config True))" by (simp add: demo_simps)
  have e: "delivered_statuses ''a''
     (sink (run_all ''20240101_000000'' second_fails_session []
        (Executor_init (demo_config True) True True True {} []))) = [CONNECTING, RUNNING, FAILED]"
    using delivered_statuses_run_all[of "Executor_init (demo_config True) True True True {} []" 0
        "''20240101_000000''" second_fails_session "[]"]
    by (simp add: demo_simps demo_statuses demo_driver)
  show ?thesis
    using d l e status_sequence_valid[OF d l, of "''20240101_000000''" True True True "{}" "[]"
        second_fails_session "[]"]
    by (simp add: demo_simps)
qed

text \<open>
  C2, as stated, fails: a connection reset during the first of two commands (an
  \<open>OSError\<close>) leaves \<open>_run_command\<close> and is caught by the driver. With stop-on-error
  disabled the second command is not attempted and the node ends \<open>FAILED\<close>; with
  stop-on-error enabled the node ends \<open>FAILED\<close> after the first command, but its error
  message is \<open>Connection error: ...\<close>, not \<open>Command failed: make\<close>.
\<close>

theorem stop_on_error_reset:
  "attempted ''a'' (run_all ''20240101_000000'' reset_session []
      (Executor_init (demo_config False) True True False {} [])) = [''make''] \<and>
   node_status (run_all ''20240101_000000'' reset_session []
      (Executor_init (demo_config False) True True False {} [])) ''a'' = Some FAILED \<and>
   node_error (run_all ''20240101_000000'' reset_session []
      (Executor_init (demo_config False) True True False {} [])) ''a''
     = Some ''Connection error: Connection reset by peer'' \<and>
   attempted ''a'' (run_all ''20240101_000000'' reset_session []
      (Executor_init (demo_config True) True True False {} [])) = [''make''] \<and>
   node_status (run_all ''20240101_000000'' reset_session []
      (Executor_init (demo_config True) True True False {} [])) ''a'' = Some FAILED \<and>
   node_error (run_all ''20240101_000000'' reset_session []
      (Executor_init (demo_config True) True True False {} [])) ''a''
     = Some ''Connection error: Connection reset by peer''"
  by (simp add: run_defs reset_session_def)

text \<open>
  C2 (amended). In a run over nodes with distinct names, for a node whose connection is
  established (its log file, when it has one, can be opened, and \<open>asyncssh.connect\<close>
  returns a session):

  \<^item> with stop-on-error enabled, when the commands before the k-th succeed and the k-th
    does not, whatever the way it does not, the commands attempted are the first k+1 in
    the configured order and no later one; when the k-th failed by a non-zero exit status
    or an \<open>asyncssh.Error\<close>, the node ends \<open>FAILED\<close> with the error message
    \<open>Command failed: <cmd>\<close> of that command; when it raised an \<open>OSError\<close>, the node
    ends \<open>FAILED\<close> with the error message \<open>Connection error: <e>\<close>;

  \<^item> with stop-on-error disabled, when every command ends with an exit status or an
    \<open>asyncssh.Error\<close>, all commands are attempted in the configured order and the node
    ends \<open>SUCCESS\<close>;

  \<^item> with stop-on-error disabled, when the commands before the k-th end with an exit
    status or an \<open>asyncssh.Error\<close> and the k-th raises an \<open>OSError\<close>, the commands
    attempted are the first k+1, and the node ends \<open>FAILED\<close> with the error message
    \<open>Connection error: <e>\<close>.
\<close>

theorem stop_on_error_policy:
  assumes "distinct (map name (nodes cfg))" and "i < length (nodes cfg)"
    and "remote i = Session conn"
    and "log_writable (initialised ts (Executor_init cfg out st lg ds fs)) (name (nodes cfg ! i))"
  shows "(stop_on_error (nodes cfg ! i) \<and> k < length (commands (nodes cfg ! i)) \<and>
          (\<forall>j<k. succeeds (conn j (actual_cmd (work_dir (nodes cfg ! i)) (commands (nodes cfg ! i) ! j)))) \<and>
          \<not> succeeds (conn k (actual_cmd (work_dir (nodes cfg ! i)) (commands (nodes cfg ! i) ! k)))
          \<longrightarrow>
            attempted (name (nodes cfg ! i))
              (run_all ts remote schedule (Executor_init cfg out st lg ds fs)) =
              map (actual_cmd (work_dir (nodes cfg ! i))) (take (Suc k) (commands (nodes cfg ! i))) \<and>
            (fails (conn k (actual_cmd (work_dir (nodes cfg ! i)) (commands (nodes cfg ! i) ! k)))
             \<longrightarrow>
               node_status (run_all ts remote schedule (Executor_init cfg out st lg ds fs))
                 (name (nodes cfg ! i)) = Some FAILED \<and>
               node_error (run_all ts remote schedule (Executor_init cfg out st lg ds fs))
                 (name (nodes cfg ! i)) = Some (''Command failed: '' @ commands (nodes cfg ! i) ! k)) \<and>
            (\<forall>e. raised (conn k (actual_cmd (work_dir (nodes cfg ! i)) (commands (nodes cfg ! i) ! k)))
                   = Some (OSError e)
             \<longrightarrow>
               node_status (run_all ts remote schedule (Executor_init cfg out st lg ds fs))
                 (name (nodes cfg ! i)) = Some FAILED \<and>
               node_error (run_all ts remote schedule (Executor_init cfg out st lg ds fs))
                 (name (nodes cfg ! i)) = Some (''Connection error: '' @ e)))
       \<and> (\<not> stop_on_error (nodes cfg ! i) \<and>
          (\<forall>j<length (commands (nodes cfg ! i)).
             returns (conn j (actual_cmd (work_dir (nodes cfg ! i)) (commands (nodes cfg ! i) ! j))))
          \<longrightarrow>
            attempted (name (nodes cfg ! i))
              (run_all ts remote schedule (Executor_init cfg out st lg ds fs)) =
              map (actual_cmd (work_dir (nodes cfg ! i))) (commands (nodes cfg ! i)) \<and>
            node_status (run_all ts remote schedule (Executor_init cfg out st lg ds fs))
              (name (nodes cfg ! i)) = Some SUCCESS)
       \<and> (\<not> stop_on_error (nodes cfg ! i) \<and> k < length (commands (nodes cfg ! i)) \<and>
          (\<forall>j<k. returns (conn j (actual_cmd (work_dir (nodes cfg ! i)) (commands (nodes cfg ! i) ! j)))) \<and>
          raised (conn k (actual_cmd (work_dir (nodes cfg ! i)) (commands (nodes cfg ! i) ! k)))
            = Some (OSError e)
          \<longrightarrow>
            attempted (name (nodes cfg ! i))
              (run_all ts remote schedule (Executor_init cfg out st lg ds fs)) =
              map (actual_cmd (work_dir (nodes cfg ! i))) (take (Suc k) (commands (nodes cfg ! i))) \<and>
            node_status (run_all ts remote schedule (Executor_init cfg out st lg ds fs))
              (name (nodes cfg ! i)) = Some FAILED \<and>
            node_error (run_all ts remote schedule (Executor_init cfg out st lg ds fs))
              (name (nodes cfg ! i)) = Some (''Connection error: '' @ e))"
proof -
  let ?ex = "Executor_init cfg out st lg ds fs"
  have dr: "driver ts remote ?ex i = run_node True (nodes cfg ! i) (Session conn)"
    using driver_writable[of ts ?ex i remote] assms(3,4) by simp
  show ?thesis
    unfolding node_status_def node_error_def
      status_run_all[OF assms(1,2)] error_message_run_all[OF assms(1,2)]
      attempted_run_all_init[OF assms(1,2)] dr
    using run_node_stop_any[of "nodes cfg ! i" k conn] run_node_continue[of "nodes cfg ! i" conn]
      run_node_raise_oserror[of k "nodes cfg ! i" conn e]
    by auto
qed

theorem stop_on_error_policy_witness:
  "distinct (map name (nodes (demo_config True))) \<and> 0 < length (nodes (demo_config True)) \<and>
   log_writable (initialised ''20240101_000000'' (Executor_init (demo_config True) True True True {} []))
     ''a'' \<and>
   stop_on_error (demo_node True) \<and> 1 < length (commands (demo_node True)) \<and>
   succeeds (second_fails 0 ''make'') \<and> fails (second_fails 1 ''make test'') \<and>
   attempted ''a'' (run_all ''20240101_000000'' second_fails_session []
      (Executor_init (demo_config True) True True True {} [])) = [''make'', ''make test''] \<and>
   node_status (run_all ''20240101_000000'' second_fails_session []
      (Executor_init (demo_config True) True True True {} [])) ''a'' = Some FAILED \<and>
   node_error (run_all ''20240101_000000'' second_fails_session []
      (Executor_init (demo_config True) True True True {} [])) ''a''
     = Some ''Command failed: make test'' \<and>
   \<not> stop_on_error (demo_node False) \<and>
   returns (second_fails 0 ''make'') \<and> returns (second_fails 1 ''make test'') \<and>
   attempted ''a'' (run_all ''20240101_000000'' second_fails_session []
      (Executor_init (demo_config False) True True True {} [])) = [''make'', ''make test''] \<and>
   node_status (run_all ''20240101_000000'' second_fails_session []
      (Executor_init (demo_config False) True True True {} [])) ''a'' = Some SUCCESS \<and>
   attempted ''a'' (run_all ''20240101_000000'' reset_session []
      (Executor_init (demo_config True) True True True {} [])) = [''make''] \<and>
   node_error (run_all ''20240101_000000'' reset_session []
      (Executor_init (demo_config True) True True True {} [])) ''a''
     = Some ''Connection error: Connection reset by peer'' \<and>
   attempted ''a'' (run_all ''20240101_000000'' reset_session []
      (Executor_init (demo_config False) True True True {} [])) = [''make''] \<and>
   node_status (run_all ''20240101_000000'' reset_session []
      (Executor_init (demo_config False) True True True {} [])) ''a'' = Some FAILED"
proof -
  let ?reset = "\<lambda>j c. if j = (0::nat) then Proc [] (Raise (OSError ''Connection reset by peer''))
                       else Proc [] (Exit 0)"
  have q: "reset_session 0 = Session ?reset" by (simp add: reset_session_def)
  have d: "distinct (map name (nodes (demo_config soe)))" for soe by (simp add: demo_config_def)
  have l: "0 < length (nodes (demo_config soe))" for soe by (simp add: demo_config_def)
  have r: "second_fails_session 0 = Session second_fails" by (simp add: second_fails_session_def)
  have w: "log_writable (initialised ''20240101_000000''
             (Executor_init (demo_config soe) True True True {} [])) (name (nodes (demo_config soe) ! 0))"
    for soe using demo_writable[of soe True True True "[]"] by (simp add: demo_simps)
  have a: "\<forall>j<1. succeeds (second_fails j
             (actual_cmd (work_dir (nodes (demo_config True) ! 0))
                (commands (nodes (demo_config True) ! 0) ! j)))"
    by (simp add: second_fails_def)
  have b: "\<forall>j<length (commands (nodes (demo_config False) ! 0)). returns (second_fails j
             (actual_cmd (work_dir (nodes (demo_config False) ! 0))
                (commands (nodes (demo_config False) ! 0) ! j)))"
    by (simp add: second_fails_def returns_def)
  show ?thesis
    using a b w[of True]
      stop_on_error_policy[where cfg = "demo_config True" and i = 0
        and remote = second_fails_session and conn = second_fails and k = 1
        and ts = "''20240101_000000''" and schedule = "[]" and out = True and st = True
        and lg = True and ds = "{}" and fs = "[]", OF d l r w]
      stop_on_error_policy[where cfg = "demo_config False" and i = 0
        and remote = second_fails_session and conn = second_fails and k = 1
        and ts = "''20240101_000000''" and schedule = "[]" and out = True and st = True
        and lg = True and ds = "{}" and fs = "[]", OF d l r w]
      stop_on_error_policy[where cfg = "demo_config True" and i = 0
        and remote = reset_session and conn = ?reset and k = 0
        and e = "''Connection reset by peer''"
        and ts = "''20240101_000000''" and schedule = "[]" and out = True and st = True
        and lg = True and ds = "{}" and fs = "[]", OF d l q w]
      stop_on_error_policy[where cfg = "demo_config False" and i = 0
        and remote = reset_session and conn = ?reset and k = 0
        and e = "''Connection reset by peer''"
        and ts = "''20240101_000000''" and schedule = "[]" and out = True and st = True
        and lg = True and ds = "{}" and fs = "[]", OF d l q w]
    by (simp add: demo_config_def demo_node_def second_fails_def returns_def)
qed

text \<open>
  C7 fails in the code. When the key file cannot be read, \<open>asyncssh.connect\<close> raises an
  exception that is neither an \<open>asyncssh.Error\<close> nor an \<open>OSError\<close>; neither \<open>except\<close>
  clause of \<open>_run_node\<close> catches it, \<open>gather\<close> drops it, and \<open>run_all\<close> returns with
  the node in \<open>CONNECTING\<close>, with no error message and no error line. The same happens when
  the first log write raises, which is before the \<open>try\<close>: for a node named \<open>sub/a\<close>
  the directory of the log file is not there, the connection is not attempted and the node
  stays in \<open>CONNECTING\<close>.
\<close>

theorem run_all_returns_connecting:
  "node_status (run_all ''20240101_000000'' key_refused []
      (Executor_init (demo_config True) True True False {} [])) ''a'' = Some CONNECTING \<and>
   node_error (run_all ''20240101_000000'' key_refused []
      (Executor_init (demo_config True) True True False {} [])) ''a'' = Some [] \<and>
   node_history (run_all ''20240101_000000'' key_refused []
      (Executor_init (demo_config True) True True False {} [])) ''a''
     = Some [''Connecting to root@h:22...''] \<and>
   node_status (run_all ''20240101_000000'' quiet_session []
      (Executor_init nested_config True True True {} [])) ''sub/a'' = Some CONNECTING \<and>
   attempted ''sub/a'' (run_all ''20240101_000000'' quiet_session []
      (Executor_init nested_config True True True {} [])) = []"
proof -
  have d: "distinct (map name (nodes nested_config))" and l: "0 < length (nodes nested_config)"
    by (simp_all add: nested_simps)
  have 1: "node_status (run_all ''20240101_000000'' key_refused []
      (Executor_init (demo_config True) True True False {} [])) ''a'' = Some CONNECTING"
    by (simp add: run_defs key_refused_def)
  have 2: "node_error (run_all ''20240101_000000'' key_refused []
      (Executor_init (demo_config True) True True False {} [])) ''a'' = Some []"
    by (simp add: run_defs key_refused_def)
  have 3: "node_history (run_all ''20240101_000000'' key_refused []
      (Executor_init (demo_config True) True True False {} [])) ''a''
     = Some [''Connecting to root@h:22...'']"
    by (simp add: run_defs key_refused_def node_history_def)
  have 4: "node_status (run_all ''20240101_000000'' quiet_session []
      (Executor_init nested_config True True True {} [])) ''sub/a'' = Some CONNECTING"
    using status_run_all[OF d l, of "''20240101_000000''" quiet_session "[]" True True True "{}" "[]"]
    by (simp add: node_status_def nested_simps nested_driver connecting_def)
  have 5: "attempted ''sub/a'' (run_all ''20240101_000000'' quiet_session []
      (Executor_init nested_config True True True {} [])) = []"
    using attempted_run_all_init[OF d l, of "''20240101_000000''" quiet_session "[]" True True True "{}" "[]"]
    by (simp add: nested_simps nested_driver)
  show ?thesis using 1 2 3 4 5 by simp
qed

text \<open>
  C8 fails in the code, by the same way out of the driver: in the headless run where the
  key file cannot be read the node is left in \<open>CONNECTING\<close>, no node is \<open>FAILED\<close>,
  nothing is printed to the standard error stream, and the exit code is 0 although the
  node did not reach \<open>SUCCESS\<close>.
\<close>

theorem headless_exit_zero_without_success:
  "exit_code (run_headless ''20240101_000000'' key_refused [] {} [] (demo_config True) False) = 0 \<and>
   stderr (run_headless ''20240101_000000'' key_refused [] {} [] (demo_config True) False) = [] \<and>
   node_status (run_all ''20240101_000000'' key_refused []
      (headless_executor (demo_config True) False {} [])) ''a'' = Some CONNECTING"
  by (simp add: run_defs key_refused_def run_headless_def headless_executor_def failed_nodes_def)

text \<open>
  C3, as stated, fails: \<open>_emit_output\<close> calls the output callback last. For a node with
  an empty history and a log file that is not there yet, what the callback can read when
  it receives the line already has the line in the history and in the log file.
\<close>

theorem emit_output_sink_last:
  "map (\<lambda>c. (fst c, map_option output_lines (seen_state (snd c)), seen_log (snd c)))
     (sink (fst (emit_output ''a'' ''hello'' logging_executor))) =
     [(OutputEvent ''a'' ''hello'', Some [''hello''], Some (''hello'' @ [CHR 0x0A]))]"
  by (simp add: emit_output_def call_on_output_def logging_executor_def logging_state_def
      fresh_state_def demo_node_def snapshot_def append_file_def open_append_def read_file_def
      path_join_def path_parts_def Let_def)

text \<open>
  C3 (amended). For every output line emitted for a node the executor knows, \<open>_emit_output\<close>
  first appends the line to the node's history, then, if the node has a log file, appends
  the line and a line feed to that file, and then hands the node's name and the line to
  the output callback: when the callback is called, the history read through the
  executor ends with the line and the log file ends with the line and its line feed. When
  the log file cannot be opened, the \<open>OSError\<close> of \<open>open\<close> leaves \<open>_emit_output\<close>:
  the line is in the history, no file is changed and the callback is not called.
\<close>

theorem emit_output_order:
  assumes "map_of (states ex) n = Some st" and "on_output ex"
  shows "map_of (states (fst (emit_output n line ex))) n
           = Some (st\<lparr>output_lines := output_lines st @ [line]\<rparr>) \<and>
     (case log_file st of
        None \<Rightarrow>
          snd (emit_output n line ex) = None \<and>
          files (fst (emit_output n line ex)) = files ex \<and>
          sink (fst (emit_output n line ex)) =
            sink ex @ [(OutputEvent n line,
              \<lparr>seen_state = Some (st\<lparr>output_lines := output_lines st @ [line]\<rparr>),
               seen_log = None\<rparr>)]
      | Some f \<Rightarrow>
          (case open_append (dirs ex) f of
             None \<Rightarrow>
               snd (emit_output n line ex) = Some (OSError log_error) \<and>
               files (fst (emit_output n line ex)) = files ex \<and>
               sink (fst (emit_output n line ex)) = sink ex
           | Some r \<Rightarrow>
               snd (emit_output n line ex) = None \<and>
               file_text (fst (emit_output n line ex)) f = file_text ex f @ line @ [CHR 0x0A] \<and>
               sink (fst (emit_output n line ex)) =
                 sink ex @ [(OutputEvent n line,
                   \<lparr>seen_state = Some (st\<lparr>output_lines := output_lines st @ [line]\<rparr>),
                    seen_log = Some (file_text ex f @ line @ [CHR 0x0A])\<rparr>)]))"
proof -
  have w: "open_append (dirs ex) f = Some r \<Longrightarrow> walk (dirs ex) [] f = Some r" for f r
    by (rule open_append_walk)
  show ?thesis
    using assms
    by (auto simp: emit_output_def call_on_output_def snapshot_def append_file_def Let_def
        update_conv' file_text_def read_file_def dest!: w split: option.splits)
qed

theorem emit_output_order_witness:
  "map_of (states logging_executor) ''a'' = Some logging_state \<and> on_output logging_executor \<and>
   open_append (dirs logging_executor) [''logs'', ''20240101_000000'', ''a.log'']
     = Some [''logs'', ''20240101_000000'', ''a.log''] \<and>
   snd (emit_output ''a'' ''hello'' logging_executor) = None \<and>
   sink (fst (emit_output ''a'' ''hello'' logging_executor)) =
     [(OutputEvent ''a'' ''hello'',
       \<lparr>seen_state = Some (logging_state\<lparr>output_lines := [''hello'']\<rparr>),
        seen_log = Some (''hello'' @ [CHR 0x0A])\<rparr>)] \<and>
   file_text (fst (emit_output ''a'' ''hello'' logging_executor))
     [''logs'', ''20240101_000000'', ''a.log''] = ''hello'' @ [CHR 0x0A]"
proof -
  have s: "map_of (states logging_executor) ''a'' = Some logging_state"
    by (simp add: logging_executor_def)
  have o: "on_output logging_executor" by (simp add: logging_executor_def)
  have l: "log_file logging_state = Some [''logs'', ''20240101_000000'', ''a.log'']"
    by (simp add: logging_state_def fresh_state_def demo_node_def path_join_def path_parts_def)
  have p: "open_append (dirs logging_executor) [''logs'', ''20240101_000000'', ''a.log'']
             = Some [''logs'', ''20240101_000000'', ''a.log'']"
    by (simp add: logging_executor_def open_append_def)
  have t: "file_text logging_executor f = []" for f
    by (simp add: file_text_def read_file_def logging_executor_def split: option.splits)
  have h: "output_lines logging_state = []" by (simp add: logging_state_def fresh_state_def)
  have k: "sink logging_executor = []" by (simp add: logging_executor_def)
  show ?thesis
    using s o p emit_output_order[OF s o, of "''hello''"]
    by (simp add: l t h k)
qed

text \<open>
  C6, as stated, fails. A command of two lines is one line of the history and two text
  lines of the log file. And for a node named \<open>sub/a\<close> the log file is
  \<open>sub/a.log\<close> in the log directory of the run; the directory \<open>sub\<close> is not
  there, so the first write raises after the line was added to the history: the history has
  one line and there is no log file.
\<close>

theorem history_and_log_differ:
  "map_option log_file (map_of (states
      (run_all ''20240101_000000'' quiet_session [] (Executor_init multiline_config False False True {} [])))
      ''a'') = Some (Some [''logs'', ''20240101_000000'', ''a.log'']) \<and>
   node_history
     (run_all ''20240101_000000'' quiet_session [] (Executor_init multiline_config False False True {} []))
     ''a'' =
     Some [''Connecting to root@h:22...'', ''Connected successfully'', [],
           ''$ echo a'' @ [CHR 0x0A] @ ''echo b'', [], ''All commands completed''] \<and>
   text_lines (file_text
     (run_all ''20240101_000000'' quiet_session [] (Executor_init multiline_config False False True {} []))
     [''logs'', ''20240101_000000'', ''a.log'']) =
     [''Connecting to root@h:22...'', ''Connected successfully'', [],
      ''$ echo a'', ''echo b'', [], ''All commands completed''] \<and>
   map_option log_file (map_of (states
      (run_all ''20240101_000000'' quiet_session [] (Executor_init nested_config False False True {} [])))
      ''sub/a'') = Some (Some [''logs'', ''20240101_000000'', ''sub'', ''a.log'']) \<and>
   node_history
     (run_all ''20240101_000000'' quiet_session [] (Executor_init nested_config False False True {} []))
     ''sub/a'' = Some [''Connecting to root@h:22...''] \<and>
   files (run_all ''20240101_000000'' quiet_session [] (Executor_init nested_config False False True {} []))
     = []"
proof -
  let ?m = "run_all ''20240101_000000'' quiet_session [] (Executor_init multiline_config False False True {} [])"
  let ?n = "run_all ''20240101_000000'' quiet_session [] (Executor_init nested_config False False True {} [])"
  have 1: "map_option log_file (map_of (states ?m) ''a'')
             = Some (Some [''logs'', ''20240101_000000'', ''a.log''])"
    by (simp add: run_defs multiline_config_def multiline_node_def quiet_session_def mkdir_parents_two)
  have 2: "node_history ?m ''a'' =
     Some [''Connecting to root@h:22...'', ''Connected successfully'', [],
           ''$ echo a'' @ [CHR 0x0A] @ ''echo b'', [], ''All commands completed'']"
    by (simp add: run_defs multiline_config_def multiline_node_def quiet_session_def mkdir_parents_two
        node_history_def)
  have 3: "text_lines (file_text ?m [''logs'', ''20240101_000000'', ''a.log'']) =
     [''Connecting to root@h:22...'', ''Connected successfully'', [],
      ''$ echo a'', ''echo b'', [], ''All commands completed'']"
    by (simp add: run_defs multiline_config_def multiline_node_def quiet_session_def mkdir_parents_two
        file_text_def text_lines_def)
  have i: "?n = fold exec (connecting ((demo_node True)\<lparr>name := ''sub/a''\<rparr>))
                 (initialised ''20240101_000000'' (Executor_init nested_config False False True {} []))"
    by (simp add: run_all_def nested_steps)
  have 4: "map_option log_file (map_of (states ?n) ''sub/a'')
             = Some (Some [''logs'', ''20240101_000000'', ''sub'', ''a.log''])"
    unfolding i nested_initialised
    by (simp add: connecting_def emit_status_def emit_output_def append_file_def fresh_state_def
        demo_node_def nested_log_file nested_open Let_def)
  have 5: "node_history ?n ''sub/a'' = Some [''Connecting to root@h:22...'']"
    unfolding i nested_initialised
    by (simp add: connecting_def emit_status_def emit_output_def append_file_def fresh_state_def
        demo_node_def nested_log_file nested_open node_history_def str_int_def digit_char_def Let_def)
  have 6: "files ?n = []"
    unfolding i nested_initialised
    by (simp add: connecting_def emit_status_def emit_output_def append_file_def fresh_state_def
        demo_node_def nested_log_file nested_open Let_def)
  show ?thesis using 1 2 3 4 5 6 by simp
qed

text \<open>
  C6 (amended). In a run where no node name holds a slash, the log directory has no
  \<open>..\<close> component, and no file and no directory was at the place of a log file before
  the run: at every point during the run and at its end, for every node with a log file,
  the text of the file is the lines of the node's history in order, each followed by a line
  feed; when no line of the history holds a line feed, the text lines of the file are the
  lines of the history.
\<close>

theorem history_log_file:
  assumes "\<forall>node\<in>set (nodes cfg). CHR ''/'' \<notin> set (name node)"
    and "\<forall>node\<in>set (nodes cfg). map_of fs (log_dir cfg @ [ts, name node @ ''.log'']) = None
           \<and> log_dir cfg @ [ts, name node @ ''.log''] \<notin> ds"
    and "''..'' \<notin> set (log_dir cfg)" and "ts \<noteq> ''..''"
  shows "(\<forall>n s f.
            map_of (states (run_prefix k ts remote schedule (Executor_init cfg out st lg ds fs))) n = Some s
            \<and> log_file s = Some f \<longrightarrow>
            file_text (run_prefix k ts remote schedule (Executor_init cfg out st lg ds fs)) f
              = log_text (output_lines s) \<and>
            ((\<forall>l\<in>set (output_lines s). CHR 0x0A \<notin> set l) \<longrightarrow>
               text_lines (file_text (run_prefix k ts remote schedule (Executor_init cfg out st lg ds fs)) f)
                 = output_lines s)) \<and>
         (\<forall>n s f.
            map_of (states (run_all ts remote schedule (Executor_init cfg out st lg ds fs))) n = Some s
            \<and> log_file s = Some f \<longrightarrow>
            file_text (run_all ts remote schedule (Executor_init cfg out st lg ds fs)) f
              = log_text (output_lines s) \<and>
            ((\<forall>l\<in>set (output_lines s). CHR 0x0A \<notin> set l) \<longrightarrow>
               text_lines (file_text (run_all ts remote schedule (Executor_init cfg out st lg ds fs)) f)
                 = output_lines s))"
proof -
  have p: "logs_match (run_prefix j ts remote schedule (Executor_init cfg out st lg ds fs))" for j
    by (rule logs_match_run_prefix[OF assms])
  have m: "logs_match ex \<Longrightarrow>
        \<forall>n s f. map_of (states ex) n = Some s \<and> log_file s = Some f \<longrightarrow>
          file_text ex f = log_text (output_lines s) \<and>
          ((\<forall>l\<in>set (output_lines s). CHR 0x0A \<notin> set l) \<longrightarrow>
             text_lines (file_text ex f) = output_lines s)" for ex
    unfolding logs_match_def by (auto simp: text_lines_log_text)
  show ?thesis
    using m[OF p[of k]] m[OF p[of "length (steps_of_run ts remote schedule (Executor_init cfg out st lg ds fs))"]]
    unfolding run_all_run_prefix[symmetric] by blast
qed

theorem history_log_file_witness:
  "list_all (\<lambda>node. CHR ''/'' \<notin> set (name node)) (nodes (demo_config True)) \<and>
   list_all (\<lambda>node.
      map_of [] (log_dir (demo_config True) @ [''20240101_000000'', name node @ ''.log'']) = None)
      (nodes (demo_config True)) \<and>
   ''..'' \<notin> set (log_dir (demo_config True)) \<and>
   map_option log_file (map_of (states
      (run_prefix 2 ''20240101_000000'' host_down [] (Executor_init (demo_config True) False False True {} [])))
      ''a'') = Some (Some [''logs'', ''20240101_000000'', ''a.log'']) \<and>
   node_history
     (run_prefix 2 ''20240101_000000'' host_down [] (Executor_init (demo_config True) False False True {} []))
     ''a'' = Some [''Connecting to root@h:22...''] \<and>
   text_lines (file_text
     (run_prefix 2 ''20240101_000000'' host_down [] (Executor_init (demo_config True) False False True {} []))
     [''logs'', ''20240101_000000'', ''a.log'']) = [''Connecting to root@h:22...''] \<and>
   node_history
     (run_all ''20240101_000000'' host_down [] (Executor_init (demo_config True) False False True {} []))
     ''a'' = Some [''Connecting to root@h:22...'', ''ERROR: Connection refused''] \<and>
   text_lines (file_text
     (run_all ''20240101_000000'' host_down [] (Executor_init (demo_config True) False False True {} []))
     [''logs'', ''20240101_000000'', ''a.log''])
     = [''Connecting to root@h:22...'', ''ERROR: Connection refused'']"
proof -
  let ?p = "run_prefix 2 ''20240101_000000'' host_down [] (Executor_init (demo_config True) False False True {} [])"
  let ?r = "run_all ''20240101_000000'' host_down [] (Executor_init (demo_config True) False False True {} [])"
  have a: "\<forall>node\<in>set (nodes (demo_config True)). CHR ''/'' \<notin> set (name node)"
    by (simp add: demo_simps)
  have b: "\<forall>node\<in>set (nodes (demo_config True)).
      map_of [] (log_dir (demo_config True) @ [''20240101_000000'', name node @ ''.log'']) = None
      \<and> log_dir (demo_config True) @ [''20240101_000000'', name node @ ''.log''] \<notin> {}"
    by simp
  have c: "''..'' \<notin> set (log_dir (demo_config True))" by (simp add: demo_config_def)
  have d: "''20240101_000000'' \<noteq> ''..''" by simp
  have 1: "map_of (states ?p) ''a'' \<noteq> None \<and>
           map_option log_file (map_of (states ?p) ''a'')
             = Some (Some [''logs'', ''20240101_000000'', ''a.log''])"
    by (simp add: run_defs run_prefix_def host_down_def mkdir_parents_two)
  have 2: "node_history ?p ''a'' = Some [''Connecting to root@h:22...'']"
    by (simp add: run_defs run_prefix_def host_down_def mkdir_parents_two node_history_def)
  have 3: "map_of (states ?r) ''a'' \<noteq> None \<and>
           map_option log_file (map_of (states ?r) ''a'')
             = Some (Some [''logs'', ''20240101_000000'', ''a.log''])"
    by (simp add: run_defs host_down_def mkdir_parents_two)
  have 4: "node_history ?r ''a'' = Some [''Connecting to root@h:22...'', ''ERROR: Connection refused'']"
    by (simp add: run_defs host_down_def mkdir_parents_two node_history_def)
  obtain s where s: "map_of (states ?p) ''a'' = Some s" using 1 by auto
  obtain s' where s': "map_of (states ?r) ''a'' = Some s'" using 3 by auto
  have ls: "log_file s = Some [''logs'', ''20240101_000000'', ''a.log'']"
    and hs: "output_lines s = [''Connecting to root@h:22...'']"
    using 1 2 s by (simp_all add: node_history_def)
  have ls': "log_file s' = Some [''logs'', ''20240101_000000'', ''a.log'']"
    and hs': "output_lines s' = [''Connecting to root@h:22...'', ''ERROR: Connection refused'']"
    using 3 4 s' by (simp_all add: node_history_def)
  note h = history_log_file[OF a b c d, of 2 host_down "[]" False False True]
  have 5: "text_lines (file_text ?p [''logs'', ''20240101_000000'', ''a.log''])
             = [''Connecting to root@h:22...'']"
  proof -
    from h have "map_of (states ?p) ''a'' = Some s
        \<and> log_file s = Some [''logs'', ''20240101_000000'', ''a.log''] \<longrightarrow>
        file_text ?p [''logs'', ''20240101_000000'', ''a.log''] = log_text (output_lines s) \<and>
        ((\<forall>l\<in>set (output_lines s). CHR 0x0A \<notin> set l) \<longrightarrow>
           text_lines (file_text ?p [''logs'', ''20240101_000000'', ''a.log'']) = output_lines s)"
      by blast
    then show ?thesis using s ls hs by (simp add: text_lines_def log_text_def)
  qed
  have 6: "text_lines (file_text ?r [''logs'', ''20240101_000000'', ''a.log''])
             = [''Connecting to root@h:22...'', ''ERROR: Connection refused'']"
  proof -
    from h have "map_of (states ?r) ''a'' = Some s'
        \<and> log_file s' = Some [''logs'', ''20240101_000000'', ''a.log''] \<longrightarrow>
        file_text ?r [''logs'', ''20240101_000000'', ''a.log''] = log_text (output_lines s') \<and>
        ((\<forall>l\<in>set (output_lines s'). CHR 0x0A \<notin> set l) \<longrightarrow>
           text_lines (file_text ?r [''logs'', ''20240101_000000'', ''a.log'']) = output_lines s')"
      by blast
    then show ?thesis using s' ls' hs' by (simp add: text_lines_def log_text_def)
  qed
  show ?thesis
    using 1 2 4 5 6 by (simp add: demo_simps demo_config_def)
qed

text \<open>
  C10. When logging is globally disabled or every node has its logging-disabled flag set,
  \<open>run_all\<close> leaves the directories and the files as they were (no log directory, no
  copy of the configuration, no log file), the executor has no log directory, and no node
  has a log file. When logging is globally enabled and some node has logging enabled, the
  log directory of the run, named by the timestamp, is made.
\<close>

theorem no_log_directory:
  "(\<not> lg \<or> list_all no_logs (nodes cfg) \<longrightarrow>
      dirs (run_all ts remote schedule (Executor_init cfg out st lg ds fs)) = ds \<and>
      files (run_all ts remote schedule (Executor_init cfg out st lg ds fs)) = fs \<and>
      x_log_dir (run_all ts remote schedule (Executor_init cfg out st lg ds fs)) = None \<and>
      (\<forall>n s. map_of (states (run_all ts remote schedule (Executor_init cfg out st lg ds fs))) n = Some s
          \<longrightarrow> log_file s = None)) \<and>
   (lg \<and> \<not> list_all no_logs (nodes cfg) \<longrightarrow>
      x_log_dir (run_all ts remote schedule (Executor_init cfg out st lg ds fs))
        = Some (log_dir cfg @ [ts]) \<and>
      log_dir cfg @ [ts] \<in> dirs (run_all ts remote schedule (Executor_init cfg out st lg ds fs)))"
proof (intro conjI impI)
  let ?ex = "Executor_init cfg out st lg ds fs"
  assume off: "\<not> lg \<or> list_all no_logs (nodes cfg)"
  have s: "setup_logging ts ?ex = ?ex" using off by (intro setup_logging_off) simp
  have n: "no_log_files (initialised ts ?ex)" by (rule no_log_files_initialised[OF off])
  note f = fold_exec_no_log[OF n, of "steps_of_run ts remote schedule ?ex"]
  show "dirs (run_all ts remote schedule ?ex) = ds"
    by (simp add: run_all_def initialised_def s)
  show "files (run_all ts remote schedule ?ex) = fs"
    using f by (simp add: run_all_def) (simp add: initialised_def s)
  show "x_log_dir (run_all ts remote schedule ?ex) = None"
    by (simp add: run_all_def initialised_def s)
  show "\<forall>n s. map_of (states (run_all ts remote schedule ?ex)) n = Some s \<longrightarrow> log_file s = None"
    using f unfolding run_all_def no_log_files_def by blast
next
  let ?ex = "Executor_init cfg out st lg ds fs"
  assume on: "lg \<and> \<not> list_all no_logs (nodes cfg)"
  show "x_log_dir (run_all ts remote schedule ?ex) = Some (log_dir cfg @ [ts])"
    using on by (simp add: run_all_def initialised_def x_log_dir_setup_logging)
  show "log_dir cfg @ [ts] \<in> dirs (run_all ts remote schedule ?ex)"
    using on by (simp add: run_all_def initialised_def dirs_setup_logging mkdir_parents_self)
qed

theorem no_log_directory_witness:
  "list_all no_logs (nodes silent_config) \<and>
   dirs (run_all ''20240101_000000'' host_down []
      (Executor_init silent_config True True True {} [([''nodes.yaml''], ''nodes: ...'')])) = {} \<and>
   files (run_all ''20240101_000000'' host_down []
      (Executor_init silent_config True True True {} [([''nodes.yaml''], ''nodes: ...'')]))
     = [([''nodes.yaml''], ''nodes: ...'')] \<and>
   True \<and> \<not> list_all no_logs (nodes (demo_config True)) \<and>
   x_log_dir (run_all ''20240101_000000'' host_down []
      (Executor_init (demo_config True) True True True {} []))
     = Some [''logs'', ''20240101_000000''] \<and>
   [''logs'', ''20240101_000000''] \<in> dirs (run_all ''20240101_000000'' host_down []
      (Executor_init (demo_config True) True True True {} []))"
proof -
  have a: "list_all no_logs (nodes silent_config)" by (simp add: silent_config_def)
  have b: "\<not> list_all no_logs (nodes (demo_config True))" by (simp add: demo_simps demo_node_def)
  show ?thesis
    using a b
      no_log_directory[of True silent_config "''20240101_000000''" host_down "[]" True True "{}"
        "[([''nodes.yaml''], ''nodes: ...'')]"]
      no_log_directory[of True "demo_config True" "''20240101_000000''" host_down "[]" True True "{}" "[]"]
    by (simp add: demo_config_def)
qed

text \<open>
  C9. In a run over nodes with distinct names, whenever the status callback receives
  \<open>FAILED\<close> for a node, the error message it can read in the node's state is still
  empty, while the node's error message is not empty when \<open>run_all\<close> returns: the
  message is assigned after the callback was called. When the connection fails with an
  \<open>asyncssh.Error\<close> or an \<open>OSError\<close>, the callbacks receive for the node, in this
  order, \<open>CONNECTING\<close>, the connecting line, \<open>FAILED\<close> (the error message still
  empty, the error line not yet in the history) and then the line \<open>ERROR: <e>\<close> (the
  error message assigned). A node whose log file cannot be opened does not get that far:
  the callbacks receive \<open>CONNECTING\<close> for it and nothing more.
\<close>

theorem failed_before_error_message:
  assumes "distinct (map name (nodes cfg))" and "i < length (nodes cfg)"
  shows "(\<forall>c\<in>set (sink (run_all ts remote schedule (Executor_init cfg out st lg ds fs))).
            fst c = StatusEvent (name (nodes cfg ! i)) FAILED \<longrightarrow>
            map_option error_message (seen_state (snd c)) = Some []) \<and>
         (FAILED \<in> set (delivered_statuses (name (nodes cfg ! i))
                          (sink (run_all ts remote schedule (Executor_init cfg out st lg ds fs)))) \<longrightarrow>
            (\<exists>m. node_error (run_all ts remote schedule (Executor_init cfg out st lg ds fs))
                    (name (nodes cfg ! i)) = Some m \<and> m \<noteq> [])) \<and>
         (out \<and> st \<and> remote i = Refused (SSHError m) \<longrightarrow>
            map (\<lambda>p. (fst p, map_option error_message (snd p), map_option output_lines (snd p)))
              (seen (name (nodes cfg ! i))
                 (sink (run_all ts remote schedule (Executor_init cfg out st lg ds fs)))) =
              (if log_writable (initialised ts (Executor_init cfg out st lg ds fs)) (name (nodes cfg ! i))
               then [(StatusEvent (name (nodes cfg ! i)) CONNECTING, Some [], Some []),
                 (OutputEvent (name (nodes cfg ! i)) (hd (emitted (connecting (nodes cfg ! i)))),
                    Some [], Some (emitted (connecting (nodes cfg ! i)))),
                 (StatusEvent (name (nodes cfg ! i)) FAILED,
                    Some [], Some (emitted (connecting (nodes cfg ! i)))),
                 (OutputEvent (name (nodes cfg ! i)) (''ERROR: '' @ m),
                    Some (''SSH error: '' @ m),
                    Some (emitted (connecting (nodes cfg ! i)) @ [''ERROR: '' @ m]))]
               else [(StatusEvent (name (nodes cfg ! i)) CONNECTING, Some [], Some [])])) \<and>
         (out \<and> st \<and> remote i = Refused (OSError m) \<longrightarrow>
            map (\<lambda>p. (fst p, map_option error_message (snd p), map_option output_lines (snd p)))
              (seen (name (nodes cfg ! i))
                 (sink (run_all ts remote schedule (Executor_init cfg out st lg ds fs)))) =
              (if log_writable (initialised ts (Executor_init cfg out st lg ds fs)) (name (nodes cfg ! i))
               then [(StatusEvent (name (nodes cfg ! i)) CONNECTING, Some [], Some []),
                 (OutputEvent (name (nodes cfg ! i)) (hd (emitted (connecting (nodes cfg ! i)))),
                    Some [], Some (emitted (connecting (nodes cfg ! i)))),
                 (StatusEvent (name (nodes cfg ! i)) FAILED,
                    Some [], Some (emitted (connecting (nodes cfg ! i)))),
                 (OutputEvent (name (nodes cfg ! i)) (''ERROR: '' @ m),
                    Some (''Connection error: '' @ m),
                    Some (emitted (connecting (nodes cfg ! i)) @ [''ERROR: '' @ m]))]
               else [(StatusEvent (name (nodes cfg ! i)) CONNECTING, Some [], Some [])]))"
proof -
  let ?ex = "run_all ts remote schedule (Executor_init cfg out st lg ds fs)"
  let ?n = "name (nodes cfg ! i)"
  let ?w = "log_writable (initialised ts (Executor_init cfg out st lg ds fs)) (name (nodes cfg ! i))"
  let ?steps = "fst (driver ts remote (Executor_init cfg out st lg ds fs) i)"
  let ?s0 = "fresh_state (x_log_dir (setup_logging ts (Executor_init cfg out st lg ds fs))) (nodes cfg ! i)"
  note sn = seen_run_all[OF assms, of ts remote schedule out st lg ds fs]
  have ftm: "failed_then_message False ?steps"
    unfolding driver_def by (rule failed_then_message_run_node)
  have calls: "\<forall>p\<in>set (local_calls ?n ?w out st ?steps ?s0).
                 fst p = StatusEvent ?n FAILED \<longrightarrow> error_message (snd p) = []"
    by (rule failed_then_message_calls[OF ftm]) (simp add: fresh_state_def)
  have 1: "\<forall>c\<in>set (sink ?ex). fst c = StatusEvent ?n FAILED \<longrightarrow>
             map_option error_message (seen_state (snd c)) = Some []"
  proof (intro ballI impI)
    fix c assume c: "c \<in> set (sink ?ex)" and f: "fst c = StatusEvent ?n FAILED"
    then have "(fst c, seen_state (snd c)) \<in> set (seen ?n (sink ?ex))"
      by (force simp: seen_def)
    then obtain p where p: "p \<in> set (local_calls ?n ?w out st ?steps ?s0)"
      "fst p = fst c" "Some (snd p) = seen_state (snd c)"
      unfolding sn by auto
    then have "error_message (snd p) = []" using calls f by simp
    then show "map_option error_message (seen_state (snd c)) = Some []"
      using p(3)[symmetric] by simp
  qed
  have d: "distinct (map name (nodes (x_config (Executor_init cfg out st lg ds fs))))"
    and l: "i < length (nodes (x_config (Executor_init cfg out st lg ds fs)))"
    using assms by simp_all
  have ds': "delivered_statuses ?n (sink ?ex) = (if st then statuses ?steps else [])"
    using delivered_statuses_run_all[OF d l, of ts remote schedule] by simp
  have 2: "FAILED \<in> set (delivered_statuses ?n (sink ?ex)) \<longrightarrow>
             (\<exists>m. node_error ?ex ?n = Some m \<and> m \<noteq> [])"
  proof
    assume "FAILED \<in> set (delivered_statuses ?n (sink ?ex))"
    then have "FAILED \<in> set (statuses ?steps)" unfolding ds' by (cases st) simp_all
    then have "last ([] # errors ?steps) \<noteq> []"
      unfolding driver_def by (rule errors_run_node_failed)
    then show "\<exists>m. node_error ?ex ?n = Some m \<and> m \<noteq> []"
      unfolding node_error_def error_message_run_all[OF assms] by simp
  qed
  have 3: "out \<and> st \<and> remote i = Refused (SSHError m) \<longrightarrow>
            map (\<lambda>p. (fst p, map_option error_message (snd p), map_option output_lines (snd p)))
              (seen ?n (sink ?ex)) =
              (if ?w then [(StatusEvent ?n CONNECTING, Some [], Some []),
               (OutputEvent ?n (hd (emitted (connecting (nodes cfg ! i)))),
                  Some [], Some (emitted (connecting (nodes cfg ! i)))),
               (StatusEvent ?n FAILED, Some [], Some (emitted (connecting (nodes cfg ! i)))),
               (OutputEvent ?n (''ERROR: '' @ m), Some (''SSH error: '' @ m),
                  Some (emitted (connecting (nodes cfg ! i)) @ [''ERROR: '' @ m]))]
               else [(StatusEvent ?n CONNECTING, Some [], Some [])])"
    unfolding sn by (simp add: driver_def run_node_def connecting_def fresh_state_def)
  have 4: "out \<and> st \<and> remote i = Refused (OSError m) \<longrightarrow>
            map (\<lambda>p. (fst p, map_option error_message (snd p), map_option output_lines (snd p)))
              (seen ?n (sink ?ex)) =
              (if ?w then [(StatusEvent ?n CONNECTING, Some [], Some []),
               (OutputEvent ?n (hd (emitted (connecting (nodes cfg ! i)))),
                  Some [], Some (emitted (connecting (nodes cfg ! i)))),
               (StatusEvent ?n FAILED, Some [], Some (emitted (connecting (nodes cfg ! i)))),
               (OutputEvent ?n (''ERROR: '' @ m), Some (''Connection error: '' @ m),
                  Some (emitted (connecting (nodes cfg ! i)) @ [''ERROR: '' @ m]))]
               else [(StatusEvent ?n CONNECTING, Some [], Some [])])"
    unfolding sn by (simp add: driver_def run_node_def connecting_def fresh_state_def)
  show ?thesis using 1 2 3 4 by blast
qed

theorem failed_before_error_message_witness:
  "distinct (map name (nodes (demo_config True))) \<and> 0 < length (nodes (demo_config True)) \<and>
   host_down 0 = Refused (OSError ''Connection refused'') \<and>
   FAILED \<in> set (delivered_statuses ''a''
     (sink (run_all ''20240101_000000'' host_down [] (Executor_init (demo_config True) True True False {} [])))) \<and>
   node_error (run_all ''20240101_000000'' host_down [] (Executor_init (demo_config True) True True False {} []))
     ''a'' = Some ''Connection error: Connection refused'' \<and>
   map (\<lambda>p. (fst p, map_option error_message (snd p), map_option output_lines (snd p)))
     (seen ''a''
        (sink (run_all ''20240101_000000'' host_down [] (Executor_init (demo_config True) True True False {} [])))) =
     [(StatusEvent ''a'' CONNECTING, Some [], Some []),
      (OutputEvent ''a'' ''Connecting to root@h:22...'', Some [], Some [''Connecting to root@h:22...'']),
      (StatusEvent ''a'' FAILED, Some [], Some [''Connecting to root@h:22...'']),
      (OutputEvent ''a'' ''ERROR: Connection refused'', Some ''Connection error: Connection refused'',
         Some [''Connecting to root@h:22...'', ''ERROR: Connection refused''])]"
proof -
  have d: "distinct (map name (nodes (demo_config True)))" by (simp add: demo_simps)
  have l: "0 < length (nodes (demo_config True))" by (simp add: demo_simps)
  have h: "host_down 0 = Refused (OSError ''Connection refused'')" by (simp add: host_down_def)
  have e: "node_error (run_all ''20240101_000000'' host_down []
             (Executor_init (demo_config True) True True False {} [])) ''a''
           = Some ''Connection error: Connection refused''"
    by (simp add: run_defs host_down_def)
  have f: "delivered_statuses ''a'' (sink (run_all ''20240101_000000'' host_down []
             (Executor_init (demo_config True) True True False {} []))) = [CONNECTING, FAILED]"
    by (simp add: run_defs host_down_def)
  have w: "log_writable (initialised ''20240101_000000''
             (Executor_init (demo_config True) True True False {} [])) (name (nodes (demo_config True) ! 0))"
    using demo_writable[of True True True False "[]"] by (simp add: demo_simps)
  show ?thesis
    using d l h e f w
      failed_before_error_message[OF d l, of "''20240101_000000''" host_down "[]" True True False "{}" "[]"
        "''Connection refused''"]
    by (simp add: demo_simps connecting_def demo_node_def str_int_def digit_char_def)
qed

end
